theory Spec2Isabelle
  imports Main "HOL-Library.Monad_Syntax"
begin

unbundle bit_operations_syntax

section \<open>Data model of ldm.c\<close>

text \<open>
  The device kinds of the anonymous enum at the top of ldm.c.
\<close>

datatype device_type = DEVICE_VOLUME | DEVICE_CD | DEVICE_UNK

text \<open>
  What ldm.c reads from a \<^verbatim>\<open>struct udev_device *\<close>: the device node
  (\<^verbatim>\<open>udev_device_get_devnode\<close>, may be NULL), the device type
  (\<^verbatim>\<open>udev_device_get_devtype\<close>, may be NULL), the symbolic links
  (\<^verbatim>\<open>udev_device_get_devlinks_list_entry\<close>) and the properties
  (\<^verbatim>\<open>udev_device_get_property_value\<close>, NULL for a missing key). A \<^verbatim>\<open>char *\<close>
  that may be NULL is a \<open>string option\<close>.
\<close>

record udev_device =
  udev_devnode :: "string option"
  udev_devtype :: "string option"
  udev_devlinks :: "string list"
  udev_properties :: "(string \<times> string) list"

definition udev_device_get_property_value :: "udev_device \<Rightarrow> string \<Rightarrow> string option" where
  "udev_device_get_property_value dev key = map_of (udev_properties dev) key"

text \<open>
  \<^verbatim>\<open>struct device_t\<close>. The record holds the fields of a struct that has been filled
  in: \<^verbatim>\<open>device_new\<close> hands a struct to \<^verbatim>\<open>device_register\<close> only after it has
  checked that \<^verbatim>\<open>filesystem\<close> and \<^verbatim>\<open>mountpoint\<close> are not NULL, and
  \<^verbatim>\<open>devnode\<close> has been dereferenced by then. No field of a struct is written after
  that.

  A \<^verbatim>\<open>struct device_t *\<close> is the address of the struct together with the struct it
  points to; NULL is \<open>None\<close>. The C code compares such pointers by address
  (\<^verbatim>\<open>g_devices[j] == dev\<close>), and so does the model.
\<close>

record device_t =
  type :: device_type
  filesystem :: string
  devnode :: string
  mountpoint :: string
  udev :: udev_device

type_synonym device_ptr = "nat \<times> device_t"

definition MAX_DEVICES :: nat where
  "MAX_DEVICES = 20"

text \<open>
  \<^verbatim>\<open>static struct device_t *g_devices[MAX_DEVICES]\<close>: a list of slots, read and written
  by index. An array has exactly \<open>MAX_DEVICES\<close> slots.
\<close>

type_synonym registry = "device_ptr option list"

definition registry_array :: "registry \<Rightarrow> bool" where
  "registry_array g = (length g = MAX_DEVICES)"

section \<open>The device registry\<close>

text \<open>
  \<^verbatim>\<open>device_register\<close>: the first slot that holds NULL takes the pointer and the
  function returns 1; with no such slot it returns 0. The loop counter is the first
  argument.
\<close>

function device_register_loop :: "nat \<Rightarrow> device_ptr \<Rightarrow> registry \<Rightarrow> int \<times> registry" where
  "device_register_loop j dev g =
     (if j < MAX_DEVICES then
        (if g ! j = None then (1, g[j := Some dev])
         else device_register_loop (j + 1) dev g)
      else (0, g))"
  by pat_completeness auto
termination
  by (relation "measure (\<lambda>(j, dev, g). MAX_DEVICES - j)") auto

declare device_register_loop.simps [simp del]

definition device_register :: "device_ptr \<Rightarrow> registry \<Rightarrow> int \<times> registry" where
  "device_register dev g = device_register_loop 0 dev g"

text \<open>
  \<^verbatim>\<open>device_destroy\<close>: the loop leaves \<open>j\<close> at the first slot holding the pointer
  \<open>dev\<close> (compared by address), or at \<open>MAX_DEVICES\<close>; the frees do not touch the
  registry; the slot found is set to NULL. Only the address of the struct matters, so
  the model takes the address.
\<close>

function device_destroy_loop :: "nat \<Rightarrow> nat \<Rightarrow> registry \<Rightarrow> nat" where
  "device_destroy_loop j a g =
     (if j < MAX_DEVICES then
        (if map_option fst (g ! j) = Some a then j
         else device_destroy_loop (j + 1) a g)
      else j)"
  by pat_completeness auto
termination
  by (relation "measure (\<lambda>(j, a, g). MAX_DEVICES - j)") auto

declare device_destroy_loop.simps [simp del]

definition device_destroy :: "nat \<Rightarrow> registry \<Rightarrow> registry" where
  "device_destroy a g =
     (let j = device_destroy_loop 0 a g
      in if j < MAX_DEVICES then g[j := None] else g)"

text \<open>
  \<^verbatim>\<open>device_search\<close>: NULL for a NULL path; otherwise the first registered struct, in
  slot order, whose \<^verbatim>\<open>devnode\<close> or \<^verbatim>\<open>mountpoint\<close> is the path.
\<close>

function device_search_loop :: "nat \<Rightarrow> string \<Rightarrow> registry \<Rightarrow> device_ptr option" where
  "device_search_loop j path g =
     (if j < MAX_DEVICES then
        (case g ! j of
           Some d \<Rightarrow>
             if devnode (snd d) = path \<or> mountpoint (snd d) = path then Some d
             else device_search_loop (j + 1) path g
         | None \<Rightarrow> device_search_loop (j + 1) path g)
      else None)"
  by pat_completeness auto
termination
  by (relation "measure (\<lambda>(j, path, g). MAX_DEVICES - j)") auto

declare device_search_loop.simps [simp del]

definition device_search :: "string option \<Rightarrow> registry \<Rightarrow> device_ptr option" where
  "device_search path g =
     (case path of
        None \<Rightarrow> None
      | Some p \<Rightarrow> device_search_loop 0 p g)"

text \<open>
  The test in the loop body of \<^verbatim>\<open>device_search\<close>, for one slot: the slot is not
  NULL and its struct has the path as \<^verbatim>\<open>devnode\<close> or as \<^verbatim>\<open>mountpoint\<close>.
\<close>

definition matches :: "string \<Rightarrow> device_ptr option \<Rightarrow> bool" where
  "matches p x = (case x of None \<Rightarrow> False | Some d \<Rightarrow> devnode (snd d) = p \<or> mountpoint (snd d) = p)"

section \<open>Mount tables\<close>

text \<open>
  Modelled from the spec: libmount is a library the daemon links against, not code of
  the repository. A table snapshot is the list of its entries in file order; an entry
  holds a source specifier, a target path and an option set (spec, section 3), and
  entries are "queryable by exact source string and by option membership" (section 6).
  \<^verbatim>\<open>mnt_table_find_source\<close> with \<^verbatim>\<open>MNT_ITER_FORWARD\<close> is the first entry whose source
  is the given string; \<^verbatim>\<open>mnt_fs_get_target\<close> may return NULL;
  \<^verbatim>\<open>mnt_fs_match_options\<close> with the pattern \<^verbatim>\<open>+name\<close> tests that the option
  \<^verbatim>\<open>name\<close> is in the entry's option set.
\<close>

record libmnt_fs =
  fs_source :: string
  fs_target :: "string option"
  fs_options :: "string list"

type_synonym libmnt_table = "libmnt_fs list"

definition mnt_table_find_source :: "libmnt_table \<Rightarrow> string \<Rightarrow> libmnt_fs option" where
  "mnt_table_find_source tab path = find (\<lambda>fs. fs_source fs = path) tab"

definition mnt_fs_get_target :: "libmnt_fs \<Rightarrow> string option" where
  "mnt_fs_get_target fs = fs_target fs"

definition mnt_fs_match_options :: "libmnt_fs \<Rightarrow> string \<Rightarrow> bool" where
  "mnt_fs_match_options fs pattern =
     (case pattern of
        c # name \<Rightarrow> if c = CHR ''+'' then name \<in> set (fs_options fs) else pattern \<in> set (fs_options fs)
      | [] \<Rightarrow> False)"

section \<open>The resolver\<close>

text \<open>
  A function whose C code can run into undefined behaviour returns an \<open>option\<close>:
  \<open>None\<close> is undefined behaviour (a NULL string handed to \<^verbatim>\<open>strcmp\<close> or
  \<^verbatim>\<open>strncmp\<close>, a write past the end of a fixed buffer), \<open>Some r\<close> is the function
  returning \<open>r\<close>.

  \<^verbatim>\<open>fstab_search\<close>: \<^verbatim>\<open>strncmp(tmp, "/dev/dm-", 8)\<close> on the device node (undefined
  for NULL); for a node that is not a logical volume the table is searched for the
  node, for a logical volume for each symbolic link in turn. Without a match the property
  \<^verbatim>\<open>ID_FS_UUID\<close> is read and the function returns NULL when it is missing; otherwise
  \<^verbatim>\<open>UUID=...\<close> is built in \<^verbatim>\<open>char keyword[128]\<close> (undefined when it does not fit
  with its terminator) and searched; then the same for \<^verbatim>\<open>ID_FS_LABEL\<close> and
  \<^verbatim>\<open>LABEL=...\<close>.
\<close>

definition keyword_size :: nat where
  "keyword_size = 128"

fun devlinks_search :: "libmnt_table \<Rightarrow> string list \<Rightarrow> libmnt_fs option" where
  "devlinks_search tab [] = None"
| "devlinks_search tab (l # ls) =
     (case mnt_table_find_source tab l of
        Some ret \<Rightarrow> Some ret
      | None \<Rightarrow> devlinks_search tab ls)"

definition fstab_search :: "libmnt_table \<Rightarrow> udev_device \<Rightarrow> libmnt_fs option option" where
  "fstab_search tab dev =
     (case udev_devnode dev of
        None \<Rightarrow> None
      | Some tmp \<Rightarrow>
          (case (if take 8 tmp \<noteq> ''/dev/dm-'' then mnt_table_find_source tab tmp
                 else devlinks_search tab (udev_devlinks dev)) of
             Some ret \<Rightarrow> Some (Some ret)
           | None \<Rightarrow>
               (case udev_device_get_property_value dev ''ID_FS_UUID'' of
                  None \<Rightarrow> Some None
                | Some uuid \<Rightarrow>
                    if keyword_size \<le> length (''UUID='' @ uuid) then None
                    else
                      (case mnt_table_find_source tab (''UUID='' @ uuid) of
                         Some ret \<Rightarrow> Some (Some ret)
                       | None \<Rightarrow>
                           (case udev_device_get_property_value dev ''ID_FS_LABEL'' of
                              None \<Rightarrow> Some None
                            | Some label \<Rightarrow>
                                if keyword_size \<le> length (''LABEL='' @ label) then None
                                else Some (mnt_table_find_source tab (''LABEL='' @ label)))))))"

definition fstab_has_option :: "libmnt_table \<Rightarrow> udev_device \<Rightarrow> string \<Rightarrow> bool option" where
  "fstab_has_option tab dev opt =
     do {
       ret \<leftarrow> fstab_search tab dev;
       Some (case ret of None \<Rightarrow> False | Some fs \<Rightarrow> mnt_fs_match_options fs opt)
     }"

section \<open>The quirk table\<close>

definition QUIRK_NONE :: int where "QUIRK_NONE = 0"
definition QUIRK_OWNER_FIX :: int where "QUIRK_OWNER_FIX = push_bit 0 1"
definition QUIRK_UTF8_FLAG :: int where "QUIRK_UTF8_FLAG = push_bit 1 1"
definition QUIRK_MASK :: int where "QUIRK_MASK = push_bit 2 1"
definition QUIRK_FLUSH :: int where "QUIRK_FLUSH = push_bit 3 1"

definition fs_table :: "(string \<times> int) list" where
  "fs_table =
     [(''msdos'', QUIRK_OWNER_FIX OR QUIRK_UTF8_FLAG),
      (''umsdos'', QUIRK_OWNER_FIX OR QUIRK_UTF8_FLAG),
      (''vfat'', QUIRK_OWNER_FIX OR QUIRK_UTF8_FLAG OR QUIRK_MASK OR QUIRK_FLUSH),
      (''exfat'', QUIRK_OWNER_FIX),
      (''ntfs'', QUIRK_OWNER_FIX OR QUIRK_UTF8_FLAG),
      (''iso9660'', QUIRK_OWNER_FIX OR QUIRK_UTF8_FLAG),
      (''udf'', QUIRK_OWNER_FIX)]"

definition filesystem_quirks :: "string \<Rightarrow> int" where
  "filesystem_quirks fs =
     (case find (\<lambda>q. fst q = fs) fs_table of
        Some q \<Rightarrow> snd q
      | None \<Rightarrow> QUIRK_NONE)"

section \<open>The daemon's state and the calls that leave it\<close>

text \<open>
  What the daemon asks of the C library, of libmount and of its own
  \<^verbatim>\<open>spawn_helper\<close>: \<^verbatim>\<open>calloc\<close>, \<^verbatim>\<open>stat\<close>, \<^verbatim>\<open>mkdir\<close> (path and mode),
  \<^verbatim>\<open>mnt_context_mount\<close> (file system type, source, target, options, and whether
  \<^verbatim>\<open>MS_RDONLY\<close> is set), \<^verbatim>\<open>mnt_context_umount\<close> (the target set in the context),
  \<^verbatim>\<open>chown\<close>, \<^verbatim>\<open>rmdir\<close>, and \<^verbatim>\<open>spawn_helper\<close> (helper, action, mountpoint).
  Messages to syslog are left out.
\<close>

datatype syscall =
    Calloc
  | Stat string
  | Mkdir string nat
  | Mount string string string string bool
  | Umount string
  | Chown string int int
  | Rmdir string
  | Spawn_helper "string option" string string

text \<open>
  The world outside the daemon decides what a call returns. It is a parameter of the
  model: a function from the calls made so far (each with the value it returned) and the
  call being made to the C return value, so that the same call can return different
  values at different times.
\<close>

type_synonym os = "(syscall \<times> int) list \<Rightarrow> syscall \<Rightarrow> int"

text \<open>
  The global variables of ldm.c that the device functions use, and the calls made so
  far with the values they returned, oldest first.
\<close>

record ldm_state =
  g_devices :: registry
  g_fstab :: libmnt_table
  g_mtab :: libmnt_table
  g_uid :: int
  g_gid :: int
  trace :: "(syscall \<times> int) list"

definition do_call :: "os \<Rightarrow> syscall \<Rightarrow> ldm_state \<Rightarrow> int \<times> ldm_state" where
  "do_call os c s = (let r = os (trace s) c in (r, s\<lparr>trace := trace s @ [(c, r)]\<rparr>))"

text \<open>
  Everything in the state but the log.
\<close>

definition globals :: "ldm_state \<Rightarrow> registry \<times> libmnt_table \<times> libmnt_table \<times> int \<times> int" where
  "globals s = (g_devices s, g_fstab s, g_mtab s, g_uid s, g_gid s)"

text \<open>
  \<^verbatim>\<open>calloc\<close> returns memory that is not in use. A registered struct is in use (it is
  freed by \<^verbatim>\<open>device_destroy\<close>, which clears its slot), so the address of a new struct
  is none of the registered addresses; the model takes the one after the largest.
\<close>

definition calloc_address :: "registry \<Rightarrow> nat" where
  "calloc_address g = Suc (fold (\<lambda>x m. case x of None \<Rightarrow> m | Some d \<Rightarrow> max (fst d) m) g 0)"

text \<open>
  \<^verbatim>\<open>spawn_helper\<close>: returns 0 at once for a NULL helper; otherwise it forks, the child
  executes the helper and the parent returns the exit code (0 if something went
  wrong), which is what the world answers. Every call of \<^verbatim>\<open>spawn_helper\<close> is logged,
  also the ones with a NULL helper.
\<close>

definition CALLBACK_PATH :: "string option" where
  "CALLBACK_PATH = None"

definition spawn_helper :: "os \<Rightarrow> string option \<Rightarrow> string \<Rightarrow> string \<Rightarrow> ldm_state \<Rightarrow> int \<times> ldm_state" where
  "spawn_helper os helper action mp s =
     (case helper of
        None \<Rightarrow> (0, s\<lparr>trace := trace s @ [(Spawn_helper None action mp, 0)]\<rparr>)
      | Some h \<Rightarrow> do_call os (Spawn_helper (Some h) action mp) s)"

definition device_is_mounted :: "ldm_state \<Rightarrow> udev_device \<Rightarrow> bool option" where
  "device_is_mounted s dev = map_option (\<lambda>ret. ret \<noteq> None) (fstab_search (g_mtab s) dev)"

section \<open>The mountpoint namer\<close>

text \<open>
  \<^verbatim>\<open>PATH_MAX\<close> comes from the system's \<^verbatim>\<open>limits.h\<close>; on Linux it is 4096.
\<close>

definition PATH_MAX :: nat where
  "PATH_MAX = 4096"

definition MOUNT_PATH :: string where
  "MOUNT_PATH = ''/mnt/''"

text \<open>
  The \<^verbatim>\<open>while (!stat(tmp, &st))\<close> loop over \<^verbatim>\<open>char tmp[PATH_MAX]\<close>: while the path
  exists, give up at length \<^verbatim>\<open>sizeof(tmp) - 2\<close>, else append an underscore. A string
  of \<^verbatim>\<open>sizeof(tmp) - 1\<close> characters fills the buffer, and \<^verbatim>\<open>strcat\<close> then writes
  past its end.
\<close>

function mountpoint_loop :: "os \<Rightarrow> string \<Rightarrow> ldm_state \<Rightarrow> (string option \<times> ldm_state) option" where
  "mountpoint_loop os tmp s =
     (case do_call os (Stat tmp) s of
        (r, s1) \<Rightarrow>
          if r = 0 then
            (if length tmp = PATH_MAX - 2 then Some (None, s1)
             else if PATH_MAX - 1 \<le> length tmp then None
             else mountpoint_loop os (tmp @ ''_'') s1)
          else Some (Some tmp, s1))"
  by pat_completeness auto
termination
  by (relation "measure (\<lambda>(os, tmp, s). PATH_MAX - length tmp)") auto

declare mountpoint_loop.simps [simp del]

text \<open>
  \<^verbatim>\<open>device_create_mountpoint\<close> reads only the udev handle of the struct it is given.
  \<^verbatim>\<open>snprintf\<close> keeps at most \<^verbatim>\<open>sizeof(tmp) - 1\<close> characters.
\<close>

definition device_create_mountpoint :: "os \<Rightarrow> udev_device \<Rightarrow> ldm_state \<Rightarrow> (string option \<times> ldm_state) option" where
  "device_create_mountpoint os dev s =
     (let label = udev_device_get_property_value dev ''ID_FS_LABEL'';
          uuid = udev_device_get_property_value dev ''ID_FS_UUID'';
          serial = udev_device_get_property_value dev ''ID_SERIAL''
      in case (case label of Some l \<Rightarrow> Some l
               | None \<Rightarrow> (case uuid of Some u \<Rightarrow> Some u | None \<Rightarrow> serial)) of
           None \<Rightarrow> Some (None, s)
         | Some name \<Rightarrow>
             mountpoint_loop os
               (map (\<lambda>c. if c = CHR '' '' then CHR ''_'' else c)
                  (take (PATH_MAX - 1) (MOUNT_PATH @ name))) s)"

section \<open>The device lifecycle\<close>

text \<open>
  \<^verbatim>\<open>device_has_media\<close> reads the type of the struct and its udev handle.
\<close>

definition device_has_media :: "device_type \<Rightarrow> udev_device \<Rightarrow> bool" where
  "device_has_media ty dev =
     (case ty of
        DEVICE_VOLUME \<Rightarrow> udev_device_get_property_value dev ''ID_FS_USAGE'' \<noteq> None
      | DEVICE_CD \<Rightarrow> udev_device_get_property_value dev ''ID_CDROM_MEDIA'' \<noteq> None
      | DEVICE_UNK \<Rightarrow> False)"

text \<open>
  The test \<^verbatim>\<open>!strcmp(dev_type, "partition") || !strcmp(dev_type, "disk") ||
  !strcmp(dev_idtype, "floppy")\<close> of \<^verbatim>\<open>device_new\<close>, evaluated left to right:
  \<^verbatim>\<open>strcmp\<close> on a NULL \<^verbatim>\<open>dev_type\<close> is undefined, and so is \<^verbatim>\<open>strcmp\<close> on a NULL
  \<^verbatim>\<open>dev_idtype\<close> when the first two comparisons fail.
\<close>

definition is_volume :: "string option \<Rightarrow> string option \<Rightarrow> bool option" where
  "is_volume dev_type dev_idtype =
     (case dev_type of
        None \<Rightarrow> None
      | Some t \<Rightarrow>
          if t = ''partition'' \<or> t = ''disk'' then Some True
          else (case dev_idtype of None \<Rightarrow> None | Some i \<Rightarrow> Some (i = ''floppy'')))"

definition destroy :: "nat \<Rightarrow> ldm_state \<Rightarrow> ldm_state" where
  "destroy a s = s\<lparr>g_devices := device_destroy a (g_devices s)\<rparr>"

text \<open>
  The part of \<^verbatim>\<open>device_new\<close> between \<^verbatim>\<open>calloc\<close> and \<^verbatim>\<open>device_register\<close>: it
  fills in the fields of the struct in the order of the C code, or rejects the device
  (\<open>None\<close> in the first component). Every rejection in the C code is
  \<^verbatim>\<open>device_destroy(device); return NULL;\<close>, which \<^verbatim>\<open>device_new\<close> below does when the
  fields come back as \<open>None\<close>. The \<^verbatim>\<open>devnode\<close> of the struct is not NULL then:
  \<^verbatim>\<open>fstab_search\<close> has dereferenced it.
\<close>

definition device_new_fields :: "os \<Rightarrow> udev_device \<Rightarrow> ldm_state \<Rightarrow> (device_t option \<times> ldm_state) option" where
  "device_new_fields os dev s =
     (let dev_devnode = udev_devnode dev;
          dev_filesystem = udev_device_get_property_value dev ''ID_FS_TYPE'';
          dev_type = udev_devtype dev;
          dev_idtype = udev_device_get_property_value dev ''ID_TYPE''
      in case dev_filesystem of
           None \<Rightarrow> Some (None, s)
         | Some fs \<Rightarrow>
             if fs = ''swap'' \<or> fs = ''LVM2_member'' \<or> fs = ''crypto_LUKS'' then Some (None, s)
             else
               do {
                 volume \<leftarrow> is_volume dev_type dev_idtype;
                 let ty = (if dev_idtype = Some ''cd'' then DEVICE_CD
                           else if volume then DEVICE_VOLUME else DEVICE_UNK);
                 if ty = DEVICE_UNK then Some (None, s)
                 else
                   do {
                     fstab_entry \<leftarrow> fstab_search (g_fstab s) dev;
                     if \<not> device_has_media ty dev then Some (None, s)
                     else
                       do {
                         (mp, s1) \<leftarrow>
                           (case fstab_entry of
                              Some e \<Rightarrow> Some (mnt_fs_get_target e, s)
                            | None \<Rightarrow> device_create_mountpoint os dev s);
                         node \<leftarrow> dev_devnode;
                         Some (map_option
                                 (\<lambda>mountp. \<lparr>type = ty, filesystem = fs, devnode = node,
                                    mountpoint = mountp, udev = dev\<rparr>) mp, s1)
                       }
                   }
               })"

text \<open>
  \<^verbatim>\<open>device_new\<close>. The result is NULL (\<open>None\<close>) or the pointer to the registered
  struct. The struct allocated by \<^verbatim>\<open>calloc\<close> lives at address \<open>a\<close>.
\<close>

definition device_new :: "os \<Rightarrow> udev_device \<Rightarrow> ldm_state \<Rightarrow> (device_ptr option \<times> ldm_state) option" where
  "device_new os dev s =
     do {
       noauto \<leftarrow> fstab_has_option (g_fstab s) dev ''+noauto'';
       if noauto then Some (None, s)
       else
         (case do_call os Calloc s of
            (m, s1) \<Rightarrow>
              if m = 0 then Some (None, s1)
              else
                do {
                  let a = calloc_address (g_devices s1);
                  (fields, s2) \<leftarrow> device_new_fields os dev s1;
                  (case fields of
                     None \<Rightarrow> Some (None, destroy a s2)
                   | Some d \<Rightarrow>
                       (case device_register (a, d) (g_devices s2) of
                          (r, g) \<Rightarrow>
                            if r = 0 then Some (None, destroy a (s2\<lparr>g_devices := g\<rparr>))
                            else Some (Some (a, d), s2\<lparr>g_devices := g\<rparr>)))
                })
     }"

text \<open>
  The \<^verbatim>\<open>%i\<close> conversion of \<^verbatim>\<open>sprintf\<close>.
\<close>

function decimal :: "nat \<Rightarrow> string" where
  "decimal n = (if n < 10 then [char_of (48 + n)] else decimal (n div 10) @ [char_of (48 + n mod 10)])"
  by pat_completeness auto
termination
  by (relation "measure id") auto

declare decimal.simps [simp del]

definition format_int :: "int \<Rightarrow> string" where
  "format_int i = (if i < 0 then CHR ''-'' # decimal (nat (- i)) else decimal (nat i))"

text \<open>
  The option string \<^verbatim>\<open>opt_fmt\<close> that \<^verbatim>\<open>device_mount\<close> builds with \<^verbatim>\<open>sprintf\<close>.
\<close>

definition mount_options :: "int \<Rightarrow> int \<Rightarrow> int \<Rightarrow> string" where
  "mount_options quirks uid gid =
     (if quirks \<noteq> QUIRK_NONE then
        (if quirks AND QUIRK_OWNER_FIX \<noteq> 0
         then ''uid='' @ format_int uid @ '',gid='' @ format_int gid @ '','' else []) @
        (if quirks AND QUIRK_UTF8_FLAG \<noteq> 0 then ''utf8,'' else []) @
        (if quirks AND QUIRK_FLUSH \<noteq> 0 then ''flush,'' else []) @
        (if quirks AND QUIRK_MASK \<noteq> 0 then ''dmask=000,fmask=111,'' else [])
      else [])"

text \<open>
  \<^verbatim>\<open>device_unmount\<close>. The target of the libmount context is the \<^verbatim>\<open>devnode\<close> of the
  struct found.
\<close>

definition device_unmount :: "os \<Rightarrow> udev_device \<Rightarrow> ldm_state \<Rightarrow> (int \<times> ldm_state) option" where
  "device_unmount os dev s =
     (case device_search (udev_devnode dev) (g_devices s) of
        None \<Rightarrow> Some (0, s)
      | Some device \<Rightarrow>
          do {
            mounted \<leftarrow> device_is_mounted s dev;
            (failed, s1) \<leftarrow>
              (if mounted
               then (case do_call os (Umount (devnode (snd device))) s of
                       (r, s') \<Rightarrow> Some (r \<noteq> 0, s'))
               else Some (False, s));
            if failed then Some (0, s1)
            else
              (case do_call os (Rmdir (mountpoint (snd device))) s1 of
                 (_, s2) \<Rightarrow>
                   (case spawn_helper os CALLBACK_PATH ''unmount'' (mountpoint (snd device)) s2 of
                      (_, s3) \<Rightarrow> Some (1, destroy (fst device) s3)))
          })"

text \<open>
  \<^verbatim>\<open>device_mount\<close>.
\<close>

definition device_mount :: "os \<Rightarrow> udev_device \<Rightarrow> ldm_state \<Rightarrow> (int \<times> ldm_state) option" where
  "device_mount os dev s =
     do {
       (new, s1) \<leftarrow> device_new os dev s;
       (case new of
          None \<Rightarrow> Some (0, s1)
        | Some device \<Rightarrow>
            (case do_call os (Mkdir (mountpoint (snd device)) 755) s1 of
               (_, s2) \<Rightarrow>
                 (let quirks = filesystem_quirks (filesystem (snd device));
                      opt_fmt = mount_options quirks (g_uid s2) (g_gid s2)
                  in case do_call os (Mount (filesystem (snd device)) (devnode (snd device))
                            (mountpoint (snd device)) opt_fmt (type (snd device) = DEVICE_CD)) s2 of
                       (r, s3) \<Rightarrow>
                         if r \<noteq> 0 then
                           do { (_, s4) \<leftarrow> device_unmount os dev s3; Some (0, s4) }
                         else
                           do {
                             (failed, s4) \<leftarrow>
                               (if quirks AND QUIRK_OWNER_FIX = 0
                                then (case do_call os (Chown (mountpoint (snd device)) (g_uid s3) (g_gid s3)) s3 of
                                        (c, s') \<Rightarrow> Some (c \<noteq> 0, s'))
                                else Some (False, s3));
                             if failed then
                               do { (_, s5) \<leftarrow> device_unmount os dev s4; Some (0, s5) }
                             else
                               (case spawn_helper os CALLBACK_PATH ''mount'' (mountpoint (snd device)) s4 of
                                  (_, s5) \<Rightarrow> Some (1, s5))
                           })))
     }"

text \<open>
  \<^verbatim>\<open>device_change\<close>.
\<close>

definition device_change :: "os \<Rightarrow> udev_device \<Rightarrow> ldm_state \<Rightarrow> (int \<times> ldm_state) option" where
  "device_change os dev s =
     do {
       (stop, s1) \<leftarrow>
         (case device_search (udev_devnode dev) (g_devices s) of
            None \<Rightarrow> Some (False, s)
          | Some device \<Rightarrow>
              do {
                mounted \<leftarrow> device_is_mounted s dev;
                if mounted then
                  do { (r, s') \<leftarrow> device_unmount os dev s; Some (r = 0, s') }
                else Some (False, s)
              });
       if stop then Some (0, s1)
       else
         do {
           (r, s2) \<leftarrow> device_mount os dev s1;
           Some (if r = 0 then 0 else 1, s2)
         }
     }"

text \<open>
  \<^verbatim>\<open>handle_ipc_event\<close>. The message is a C string; an empty one has the terminator as
  its first character. For a message that starts with \<^verbatim>\<open>R\<close> the last character is
  dropped when it is a slash, and the path is what follows the first character.
\<close>

definition handle_ipc_event :: "os \<Rightarrow> string \<Rightarrow> ldm_state \<Rightarrow> ldm_state option" where
  "handle_ipc_event os msg s =
     (case msg of
        [] \<Rightarrow> Some s
      | c # rest \<Rightarrow>
          if c = CHR ''R'' then
            (let msg' = (if last msg = CHR ''/'' then butlast msg else msg)
             in case device_search (Some (tl msg')) (g_devices s) of
                  None \<Rightarrow> Some s
                | Some device \<Rightarrow>
                    do {
                      mounted \<leftarrow> device_is_mounted s (udev (snd device));
                      if mounted then
                        do { (_, s1) \<leftarrow> device_unmount os (udev (snd device)) s; Some s1 }
                      else Some s
                    })
          else Some s)"

text \<open>
  \<^verbatim>\<open>check_registered_devices\<close>; the loop counter is the second argument.
\<close>

function check_registered_devices_loop :: "os \<Rightarrow> nat \<Rightarrow> ldm_state \<Rightarrow> ldm_state option" where
  "check_registered_devices_loop os j s =
     (if j < MAX_DEVICES then
        (case g_devices s ! j of
           None \<Rightarrow> check_registered_devices_loop os (j + 1) s
         | Some d \<Rightarrow>
             do {
               mounted \<leftarrow> device_is_mounted s (udev (snd d));
               if \<not> mounted then
                 do {
                   (_, s1) \<leftarrow> device_unmount os (udev (snd d)) s;
                   check_registered_devices_loop os (j + 1) s1
                 }
               else check_registered_devices_loop os (j + 1) s
             })
      else Some s)"
  by pat_completeness auto
termination
  by (relation "measure (\<lambda>(os, j, s). MAX_DEVICES - j)") auto

declare check_registered_devices_loop.simps [simp del]

definition check_registered_devices :: "os \<Rightarrow> ldm_state \<Rightarrow> ldm_state option" where
  "check_registered_devices os s = check_registered_devices_loop os 0 s"

section \<open>Notions in which the claims are stated\<close>

text \<open>
  The targets of the \<^verbatim>\<open>mnt_context_umount\<close> calls in a log, in order.
\<close>

fun umount_target :: "syscall \<times> int \<Rightarrow> string option" where
  "umount_target (Umount t, r) = Some t"
| "umount_target (c, r) = None"

definition umount_targets :: "(syscall \<times> int) list \<Rightarrow> string list" where
  "umount_targets tr = List.map_filter umount_target tr"

text \<open>
  The key that the remove command looks up, in the words of the spec: the path with a
  trailing slash stripped.
\<close>

definition remove_key :: "string \<Rightarrow> string" where
  "remove_key path = (if path \<noteq> [] \<and> last path = CHR ''/'' then butlast path else path)"

text \<open>
  The namer in the words of the spec: the name is the first present of label, UUID and
  serial; it is sanitized by replacing every space with an underscore; the \<open>k\<close>-th
  candidate is the base directory and the sanitized name with \<open>k\<close> underscores appended.
\<close>

definition mountpoint_name :: "udev_device \<Rightarrow> string option" where
  "mountpoint_name dev =
     (case udev_device_get_property_value dev ''ID_FS_LABEL'' of
        Some label \<Rightarrow> Some label
      | None \<Rightarrow>
          (case udev_device_get_property_value dev ''ID_FS_UUID'' of
             Some uuid \<Rightarrow> Some uuid
           | None \<Rightarrow> udev_device_get_property_value dev ''ID_SERIAL''))"

definition sanitize :: "string \<Rightarrow> string" where
  "sanitize name = map (\<lambda>c. if c = CHR '' '' then CHR ''_'' else c) name"

definition candidate :: "string \<Rightarrow> nat \<Rightarrow> string" where
  "candidate base k = base @ replicate k CHR ''_''"

text \<open>
  The log after the namer has asked \<^verbatim>\<open>stat\<close> about the candidates before the
  \<open>k\<close>-th, and whether the \<open>k\<close>-th candidate exists when the namer asks about it.
\<close>

fun stat_log :: "os \<Rightarrow> (syscall \<times> int) list \<Rightarrow> string \<Rightarrow> nat \<Rightarrow> (syscall \<times> int) list" where
  "stat_log os tr base 0 = tr"
| "stat_log os tr base (Suc k) =
     (let tr' = stat_log os tr base k
      in tr' @ [(Stat (candidate base k), os tr' (Stat (candidate base k)))])"

definition path_exists :: "os \<Rightarrow> (syscall \<times> int) list \<Rightarrow> string \<Rightarrow> nat \<Rightarrow> bool" where
  "path_exists os tr base k = (os (stat_log os tr base k) (Stat (candidate base k)) = 0)"

text \<open>
  The invariant of claim C2 and the one it rests on. No two slots of the registry hold
  records with the same value of \<open>f\<close>: for the device path this is the uniqueness of
  the spec; for the address it says that no struct is registered twice, which holds
  because \<^verbatim>\<open>device_register\<close> is only called on a struct fresh from \<^verbatim>\<open>calloc\<close>.
\<close>

definition slots_distinct :: "(device_ptr \<Rightarrow> 'a) \<Rightarrow> registry \<Rightarrow> bool" where
  "slots_distinct f g =
     (\<forall>i\<in>{..<MAX_DEVICES}. \<forall>j\<in>{..<MAX_DEVICES}.
        case (g ! i, g ! j) of
          (Some a, Some b) \<Rightarrow> i = j \<or> f a \<noteq> f b
        | _ \<Rightarrow> True)"

definition unique_device_paths :: "registry \<Rightarrow> bool" where
  "unique_device_paths g = slots_distinct (\<lambda>d. devnode (snd d)) g"

definition unique_addresses :: "registry \<Rightarrow> bool" where
  "unique_addresses g = slots_distinct fst g"

definition path_registered :: "string \<Rightarrow> registry \<Rightarrow> bool" where
  "path_registered p g =
     (\<exists>i\<in>{..<MAX_DEVICES}. case g ! i of Some d \<Rightarrow> devnode (snd d) = p | None \<Rightarrow> False)"

definition registry_invariant :: "registry \<Rightarrow> bool" where
  "registry_invariant g = (registry_array g \<and> unique_addresses g \<and> unique_device_paths g)"

text \<open>
  What holds of every registry that the operations build from the empty one: it is an
  array, no struct is registered in two slots, and every record holds the device path
  of its own udev handle (\<^verbatim>\<open>device_new\<close> sets \<^verbatim>\<open>device->udev\<close> and
  \<^verbatim>\<open>device->devnode\<close> from the same device).
\<close>

definition records_sound :: "registry \<Rightarrow> bool" where
  "records_sound g =
     (registry_array g \<and> unique_addresses g \<and>
      (\<forall>i\<in>{..<MAX_DEVICES}.
         case g ! i of
           None \<Rightarrow> True
         | Some d \<Rightarrow> udev_devnode (udev (snd d)) = Some (devnode (snd d))))"

text \<open>
  The operations of the daemon that claim C2 lists, and what each runs: the create
  step, the handlers of the udev actions add, remove and change, the reconciliation
  after a change of the live table, and the remove command of the command channel.
\<close>

datatype operation =
    Create udev_device
  | Mount_device udev_device
  | Unmount_device udev_device
  | Change_device udev_device
  | Reconcile
  | Remove_command string

fun run :: "os \<Rightarrow> operation \<Rightarrow> ldm_state \<Rightarrow> ldm_state option" where
  "run os (Create dev) s = map_option snd (device_new os dev s)"
| "run os (Mount_device dev) s = map_option snd (device_mount os dev s)"
| "run os (Unmount_device dev) s = map_option snd (device_unmount os dev s)"
| "run os (Change_device dev) s = map_option snd (device_change os dev s)"
| "run os Reconcile s = check_registered_devices os s"
| "run os (Remove_command path) s = handle_ipc_event os (CHR ''R'' # path) s"

text \<open>
  The device path of the udev device is the device path of a registered record.
\<close>

definition known_path :: "udev_device \<Rightarrow> ldm_state \<Rightarrow> bool" where
  "known_path dev s =
     (case udev_devnode dev of
        None \<Rightarrow> False
      | Some p \<Rightarrow> path_registered p (g_devices s))"

text \<open>
  \<^verbatim>\<open>device_change\<close> unmounts before it mounts: \<^verbatim>\<open>device_search\<close> finds a record,
  the record found is the one with the device's path, and the mtab snapshot shows the
  device mounted.
\<close>

definition replaces_record :: "udev_device \<Rightarrow> ldm_state \<Rightarrow> bool" where
  "replaces_record dev s =
     (case device_search (udev_devnode dev) (g_devices s) of
        None \<Rightarrow> False
      | Some d \<Rightarrow> udev_devnode dev = Some (devnode (snd d)) \<and> device_is_mounted s dev = Some True)"

text \<open>
  The operation goes on to create a record for a device path that is registered
  already.
\<close>

fun adds_known_path :: "operation \<Rightarrow> ldm_state \<Rightarrow> bool" where
  "adds_known_path (Create dev) s = known_path dev s"
| "adds_known_path (Mount_device dev) s = known_path dev s"
| "adds_known_path (Change_device dev) s = (known_path dev s \<and> \<not> replaces_record dev s)"
| "adds_known_path _ s = False"

section \<open>Example devices and registries\<close>

definition sdb1 :: udev_device where
  "sdb1 = \<lparr>udev_devnode = Some ''/dev/sdb1'', udev_devtype = Some ''partition'', udev_devlinks = [],
     udev_properties = [(''ID_FS_TYPE'', ''ext4''), (''ID_FS_USAGE'', ''filesystem''), (''ID_FS_LABEL'', ''DATA'')]\<rparr>"

definition sdc1 :: udev_device where
  "sdc1 = \<lparr>udev_devnode = Some ''/dev/sdc1'', udev_devtype = Some ''partition'', udev_devlinks = [],
     udev_properties = [(''ID_FS_TYPE'', ''vfat''), (''ID_FS_USAGE'', ''filesystem''), (''ID_FS_LABEL'', ''My Disk'')]\<rparr>"

definition sdb1_first :: device_ptr where
  "sdb1_first = (1, \<lparr>type = DEVICE_VOLUME, filesystem = ''ext4'', devnode = ''/dev/sdb1'',
     mountpoint = ''/mnt/DATA'', udev = sdb1\<rparr>)"

definition sdb1_second :: device_ptr where
  "sdb1_second = (2, \<lparr>type = DEVICE_VOLUME, filesystem = ''ext4'', devnode = ''/dev/sdb1'',
     mountpoint = ''/mnt/DATA_'', udev = sdb1\<rparr>)"

definition sdc1_record :: device_ptr where
  "sdc1_record = (2, \<lparr>type = DEVICE_VOLUME, filesystem = ''vfat'', devnode = ''/dev/sdc1'',
     mountpoint = ''/mnt/My_Disk'', udev = sdc1\<rparr>)"

definition empty_registry :: registry where
  "empty_registry = replicate MAX_DEVICES None"

definition registry_sdb1 :: registry where
  "registry_sdb1 = empty_registry[0 := Some sdb1_first]"

definition sda2 :: udev_device where
  "sda2 = \<lparr>udev_devnode = Some ''/dev/sda2'', udev_devtype = Some ''partition'', udev_devlinks = [],
     udev_properties = [(''ID_FS_TYPE'', ''swap''), (''ID_FS_USAGE'', ''other''), (''ID_FS_UUID'', ''0a1b'')]\<rparr>"

definition fstab_label :: libmnt_table where
  "fstab_label = [\<lparr>fs_source = ''LABEL=DATA'', fs_target = Some ''/media/data'', fs_options = [''defaults'']\<rparr>]"

definition fstab_swap :: libmnt_table where
  "fstab_swap = [\<lparr>fs_source = ''/dev/sda2'', fs_target = Some ''none'', fs_options = [''sw'']\<rparr>]"

definition os_ok :: os where
  "os_ok tr c = (case c of Calloc \<Rightarrow> 1 | Stat p \<Rightarrow> (if Mkdir p 755 \<in> fst ` set tr then 0 else -1) | _ \<Rightarrow> 0)"

definition boot_state :: ldm_state where
  "boot_state = \<lparr>g_devices = empty_registry, g_fstab = [], g_mtab = [], g_uid = 1000, g_gid = 100, trace = []\<rparr>"

definition mtab_sdc1 :: libmnt_table where
  "mtab_sdc1 = [\<lparr>fs_source = ''/dev/sdc1'', fs_target = Some ''/mnt/My_Disk'', fs_options = [''rw'']\<rparr>]"

definition os_busy :: os where
  "os_busy tr c = (case c of Umount t \<Rightarrow> -1 | _ \<Rightarrow> os_ok tr c)"

definition state_sdc1 :: ldm_state where
  "state_sdc1 = boot_state\<lparr>g_devices := empty_registry[0 := Some sdc1_record]\<rparr>"

definition state_sdc1_mounted :: ldm_state where
  "state_sdc1_mounted = state_sdc1\<lparr>g_mtab := mtab_sdc1\<rparr>"

definition os_collide :: os where
  "os_collide tr c =
     (case c of
        Calloc \<Rightarrow> 1
      | Stat p \<Rightarrow> (if p = ''/mnt/My_Disk'' \<or> p = ''/mnt/My_Disk_'' then 0 else -1)
      | _ \<Rightarrow> 0)"

definition sdd1 :: udev_device where
  "sdd1 = \<lparr>udev_devnode = Some ''/dev/sdd1'', udev_devtype = Some ''partition'', udev_devlinks = [],
     udev_properties = [(''ID_FS_TYPE'', ''ext4''), (''ID_FS_USAGE'', ''filesystem''),
       (''ID_FS_LABEL'', replicate 4091 CHR ''a'')]\<rparr>"



definition mounted_once :: ldm_state where
  "mounted_once = boot_state\<lparr>g_devices := empty_registry[0 := Some sdb1_first],
     trace := [(Calloc, 1), (Stat ''/mnt/DATA'', -1), (Mkdir ''/mnt/DATA'' 755, 0),
       (Mount ''ext4'' ''/dev/sdb1'' ''/mnt/DATA'' [] False, 0),
       (Chown ''/mnt/DATA'' 1000 100, 0), (Spawn_helper None ''mount'' ''/mnt/DATA'', 0)]\<rparr>"

definition mounted_twice :: ldm_state where
  "mounted_twice = mounted_once\<lparr>g_devices := empty_registry[0 := Some sdb1_first, 1 := Some sdb1_second],
     trace := trace mounted_once @
       [(Calloc, 1), (Stat ''/mnt/DATA'', 0), (Stat ''/mnt/DATA_'', -1), (Mkdir ''/mnt/DATA_'' 755, 0),
        (Mount ''ext4'' ''/dev/sdb1'' ''/mnt/DATA_'' [] False, 0),
        (Chown ''/mnt/DATA_'' 1000 100, 0), (Spawn_helper None ''mount'' ''/mnt/DATA_'', 0)]\<rparr>"

text \<open>
  Two devices registered, of which the mtab snapshot shows \<^verbatim>\<open>/dev/sdc1\<close> only; and
  the registry after two add events for \<^verbatim>\<open>/dev/sdb1\<close> with the mtab snapshot read
  after both mounts.
\<close>

definition state_two_devices :: ldm_state where
  "state_two_devices = boot_state\<lparr>g_devices := registry_sdb1[1 := Some sdc1_record], g_mtab := mtab_sdc1\<rparr>"

definition mtab_sdb1 :: libmnt_table where
  "mtab_sdb1 = [\<lparr>fs_source = ''/dev/sdb1'', fs_target = Some ''/mnt/DATA'', fs_options = [''rw'']\<rparr>,
     \<lparr>fs_source = ''/dev/sdb1'', fs_target = Some ''/mnt/DATA_'', fs_options = [''rw'']\<rparr>]"

definition state_sdb1_twice :: ldm_state where
  "state_sdb1_twice = mounted_twice\<lparr>g_mtab := mtab_sdb1\<rparr>"

section \<open>Properties of the registry\<close>

lemma register_loop_end: "\<not> j < MAX_DEVICES \<Longrightarrow> device_register_loop j dev g = (0, g)"
  by (simp add: device_register_loop.simps [of j])

lemma register_loop_hit: "j < MAX_DEVICES \<Longrightarrow> g ! j = None \<Longrightarrow> device_register_loop j dev g = (1, g[j := Some dev])"
  by (simp add: device_register_loop.simps [of j])

lemma register_loop_skip: "j < MAX_DEVICES \<Longrightarrow> g ! j = Some e \<Longrightarrow> device_register_loop j dev g = device_register_loop (Suc j) dev g"
  by (simp add: device_register_loop.simps [of j])

lemma register_loop_full:
  assumes "j \<le> MAX_DEVICES" and "\<And>i. j \<le> i \<Longrightarrow> i < MAX_DEVICES \<Longrightarrow> g ! i \<noteq> None"
  shows "device_register_loop j dev g = (0, g)"
  using assms
proof (induction rule: inc_induct)
  case base
  show ?case by (simp add: register_loop_end)
next
  case (step n)
  from step.prems [of n] step.hyps obtain e where "g ! n = Some e" by auto
  with step.hyps have "device_register_loop n dev g = device_register_loop (Suc n) dev g"
    by (simp add: register_loop_skip)
  moreover have "device_register_loop (Suc n) dev g = (0, g)"
    by (rule step.IH) (simp add: step.prems)
  ultimately show ?case by simp
qed

lemma register_loop_free:
  assumes "j \<le> k" and "k < MAX_DEVICES" and "g ! k = None"
    and "\<And>i. j \<le> i \<Longrightarrow> i < k \<Longrightarrow> g ! i \<noteq> None"
  shows "device_register_loop j dev g = (1, g[k := Some dev])"
  using assms
proof (induction rule: inc_induct)
  case base
  then show ?case by (simp add: register_loop_hit)
next
  case (step n)
  from step.prems(3) [of n] step.hyps obtain e where "g ! n = Some e" by auto
  with step.hyps step.prems(1) have "device_register_loop n dev g = device_register_loop (Suc n) dev g"
    by (simp add: register_loop_skip)
  moreover have "device_register_loop (Suc n) dev g = (1, g[k := Some dev])"
    by (rule step.IH) (simp_all add: step.prems)
  ultimately show ?case by simp
qed

lemma search_loop_end: "\<not> j < MAX_DEVICES \<Longrightarrow> device_search_loop j p g = None"
  by (simp add: device_search_loop.simps [of j])

lemma search_loop_hit: "j < MAX_DEVICES \<Longrightarrow> g ! j = Some d \<Longrightarrow> matches p (g ! j) \<Longrightarrow> device_search_loop j p g = Some d"
  by (simp add: device_search_loop.simps [of j] matches_def)

lemma search_loop_skip: "j < MAX_DEVICES \<Longrightarrow> \<not> matches p (g ! j) \<Longrightarrow> device_search_loop j p g = device_search_loop (Suc j) p g"
  by (cases "g ! j") (simp_all add: device_search_loop.simps [of j] matches_def)

lemma search_loop_none:
  assumes "j \<le> MAX_DEVICES" and "\<And>i. j \<le> i \<Longrightarrow> i < MAX_DEVICES \<Longrightarrow> \<not> matches p (g ! i)"
  shows "device_search_loop j p g = None"
  using assms
proof (induction rule: inc_induct)
  case base
  show ?case by (simp add: search_loop_end)
next
  case (step n)
  have "device_search_loop n p g = device_search_loop (Suc n) p g"
    using step.hyps step.prems [of n] by (simp add: search_loop_skip)
  moreover have "device_search_loop (Suc n) p g = None"
    by (rule step.IH) (simp add: step.prems)
  ultimately show ?case by simp
qed

lemma search_loop_first:
  assumes "j \<le> k" and "k < MAX_DEVICES" and "g ! k = Some d" and "matches p (g ! k)"
    and "\<And>i. j \<le> i \<Longrightarrow> i < k \<Longrightarrow> \<not> matches p (g ! i)"
  shows "device_search_loop j p g = Some d"
  using assms
proof (induction rule: inc_induct)
  case base
  then show ?case by (blast intro: search_loop_hit)
next
  case (step n)
  have "device_search_loop n p g = device_search_loop (Suc n) p g"
    using step.hyps step.prems(1) step.prems(4) [of n] by (simp add: search_loop_skip)
  moreover have "device_search_loop (Suc n) p g = Some d"
    using step.prems by (intro step.IH) auto
  ultimately show ?case by simp
qed

lemma search_loop_Some:
  assumes "device_search_loop j p g = Some d"
  shows "\<exists>k. j \<le> k \<and> k < MAX_DEVICES \<and> g ! k = Some d \<and> matches p (g ! k) \<and>
           (\<forall>i. j \<le> i \<and> i < k \<longrightarrow> \<not> matches p (g ! i))"
proof (rule ccontr)
  assume no: "\<not> ?thesis"
  have none: "\<not> matches p (g ! i)" if "j \<le> i" "i < MAX_DEVICES" for i
    using that
  proof (induction i rule: less_induct)
    case (less i)
    show ?case
    proof
      assume m: "matches p (g ! i)"
      then obtain e where e: "g ! i = Some e" by (auto simp: matches_def split: option.splits)
      have "device_search_loop j p g = Some e"
        using less.prems e m less.IH by (intro search_loop_first [of j i]) auto
      with assms have "e = d" by simp
      with e m less.prems less.IH
      have "j \<le> i \<and> i < MAX_DEVICES \<and> g ! i = Some d \<and> matches p (g ! i) \<and>
           (\<forall>i'. j \<le> i' \<and> i' < i \<longrightarrow> \<not> matches p (g ! i'))" by simp
      with no show False by blast
    qed
  qed
  have "device_search_loop j p g = None"
  proof (cases "j \<le> MAX_DEVICES")
    case True
    then show ?thesis using none by (rule search_loop_none)
  next
    case False
    then show ?thesis by (simp add: search_loop_end)
  qed
  with assms show False by simp
qed

lemma registry_sdb1_nth:
  "registry_sdb1 ! 0 = Some sdb1_first" "registry_sdb1 ! 1 = None" "registry_array registry_sdb1"
  by (simp_all add: registry_sdb1_def empty_registry_def MAX_DEVICES_def registry_array_def)

text \<open>
  Claim C1, as amended. On an array of \<open>MAX_DEVICES\<close> = 20 slots,
  \<^verbatim>\<open>device_register\<close> returns 0 and leaves the registry as it was when every slot
  holds a record; device paths are not looked at. When a slot is free it stores the
  pointer in the first free slot \<open>j\<close> and returns 1, and \<^verbatim>\<open>device_search\<close> on the
  record's device path then returns that record provided no record in a slot before
  \<open>j\<close> has that path as its device path or mountpoint.
\<close>

theorem device_register_spec:
  assumes "registry_array g"
  shows "(None \<notin> set g \<longrightarrow> device_register r g = (0, g)) \<and>
         (None \<in> set g \<longrightarrow>
            (\<exists>j<MAX_DEVICES. g ! j = None \<and> (\<forall>i<j. g ! i \<noteq> None) \<and>
               device_register r g = (1, g[j := Some r]) \<and>
               ((\<forall>i<j. \<not> matches (devnode (snd r)) (g ! i)) \<longrightarrow>
                  device_search (Some (devnode (snd r))) (g[j := Some r]) = Some r)))"
proof (intro conjI impI)
  assume full: "None \<notin> set g"
  have "g ! i \<noteq> None" if "i < MAX_DEVICES" for i
    using that full assms by (metis nth_mem registry_array_def)
  then show "device_register r g = (0, g)"
    unfolding device_register_def by (intro register_loop_full) simp_all
next
  assume "None \<in> set g"
  then obtain k where k: "k < length g" "g ! k = None" by (auto simp: in_set_conv_nth)
  define j where "j = (LEAST k. k < length g \<and> g ! k = None)"
  from k have j: "j < length g" "g ! j = None"
    unfolding j_def by (metis (mono_tags, lifting) LeastI)+
  have first: "g ! i \<noteq> None" if "i < j" for i
  proof
    assume "g ! i = None"
    with that j(1) have "j \<le> i" unfolding j_def by (intro Least_le) simp
    with that show False by simp
  qed
  from j assms have jm: "j < MAX_DEVICES" by (simp add: registry_array_def)
  have reg: "device_register r g = (1, g[j := Some r])"
    unfolding device_register_def using jm j(2) first by (intro register_loop_free) simp_all
  have find: "device_search (Some (devnode (snd r))) (g[j := Some r]) = Some r"
    if "\<forall>i<j. \<not> matches (devnode (snd r)) (g ! i)"
  proof -
    have "device_search_loop 0 (devnode (snd r)) (g[j := Some r]) = Some r"
      using jm j(1) that by (intro search_loop_first [of 0 j]) (simp_all add: matches_def)
    then show ?thesis by (simp add: device_search_def)
  qed
  from jm j(2) first reg find
  show "\<exists>j<MAX_DEVICES. g ! j = None \<and> (\<forall>i<j. g ! i \<noteq> None) \<and>
               device_register r g = (1, g[j := Some r]) \<and>
               ((\<forall>i<j. \<not> matches (devnode (snd r)) (g ! i)) \<longrightarrow>
                  device_search (Some (devnode (snd r))) (g[j := Some r]) = Some r)"
    by blast
qed

theorem device_register_spec_witness:
  "registry_array registry_sdb1 \<and>
   device_register sdc1_record registry_sdb1 = (1, registry_sdb1[1 := Some sdc1_record]) \<and>
   device_search (Some ''/dev/sdc1'') (registry_sdb1[1 := Some sdc1_record]) = Some sdc1_record"
proof -
  have arr: "registry_array registry_sdb1" by (rule registry_sdb1_nth)
  have free: "None \<in> set registry_sdb1"
    using registry_sdb1_nth by (metis MAX_DEVICES_def nth_mem one_less_numeral_iff registry_array_def semiring_norm(76))
  from device_register_spec [OF arr, of sdc1_record] free
  obtain j where j: "j < MAX_DEVICES" "registry_sdb1 ! j = None" "\<forall>i<j. registry_sdb1 ! i \<noteq> None"
    "device_register sdc1_record registry_sdb1 = (1, registry_sdb1[j := Some sdc1_record])"
    "(\<forall>i<j. \<not> matches (devnode (snd sdc1_record)) (registry_sdb1 ! i)) \<longrightarrow>
       device_search (Some (devnode (snd sdc1_record))) (registry_sdb1[j := Some sdc1_record]) = Some sdc1_record"
    by blast
  from j(2) registry_sdb1_nth(1) have "j \<noteq> 0" by (cases "j = 0") simp_all
  moreover from j(3) registry_sdb1_nth(2) have "\<not> 1 < j" by auto
  ultimately have j1: "j = 1" by simp
  have "\<forall>i<j. \<not> matches (devnode (snd sdc1_record)) (registry_sdb1 ! i)"
    using j1 registry_sdb1_nth(1) by (simp add: matches_def sdb1_first_def sdc1_record_def)
  with j(5) j(4) j1 arr show ?thesis by (simp add: sdc1_record_def)
qed

text \<open>
  Claim C1 as stated fails: with a record for \<^verbatim>\<open>/dev/sdb1\<close> registered, registering a
  second record with the same device path returns 1 and changes the registry, and
  \<^verbatim>\<open>device_search\<close> on that path then returns the first record, not the one just
  registered.
\<close>

theorem device_register_duplicate_counterexample:
  "registry_array registry_sdb1 \<and>
   device_search (Some ''/dev/sdb1'') registry_sdb1 = Some sdb1_first \<and>
   devnode (snd sdb1_second) = ''/dev/sdb1'' \<and>
   device_register sdb1_second registry_sdb1 = (1, registry_sdb1[1 := Some sdb1_second]) \<and>
   registry_sdb1[1 := Some sdb1_second] \<noteq> registry_sdb1 \<and>
   device_search (Some ''/dev/sdb1'') (registry_sdb1[1 := Some sdb1_second]) = Some sdb1_first \<and>
   sdb1_first \<noteq> sdb1_second"
proof -
  have reg: "device_register sdb1_second registry_sdb1 = (1, registry_sdb1[1 := Some sdb1_second])"
    unfolding device_register_def using registry_sdb1_nth
    by (intro register_loop_free) (simp_all add: MAX_DEVICES_def)
  have s0: "device_search (Some ''/dev/sdb1'') registry_sdb1 = Some sdb1_first"
    unfolding device_search_def using registry_sdb1_nth
    by (simp add: search_loop_hit MAX_DEVICES_def matches_def sdb1_first_def)
  have s1: "device_search (Some ''/dev/sdb1'') (registry_sdb1[1 := Some sdb1_second]) = Some sdb1_first"
    unfolding device_search_def using registry_sdb1_nth
    by (simp add: search_loop_hit MAX_DEVICES_def matches_def sdb1_first_def)
  have ne: "registry_sdb1[1 := Some sdb1_second] \<noteq> registry_sdb1"
    using registry_sdb1_nth
    by (metis MAX_DEVICES_def nth_list_update_eq one_less_numeral_iff option.distinct(1) registry_array_def semiring_norm(76))
  show ?thesis using reg s0 s1 ne registry_sdb1_nth(3)
    by (simp add: sdb1_first_def sdb1_second_def)
qed

section \<open>Allocation, destruction and the namer leave the rest alone\<close>

lemma fold_max_le:
  "m \<le> fold (\<lambda>x m. case x of None \<Rightarrow> m | Some d \<Rightarrow> max (fst d) m) g (m::nat)"
proof (induction g arbitrary: m)
  case Nil
  show ?case by simp
next
  case (Cons x g)
  show ?case
  proof (cases x)
    case None
    then show ?thesis using Cons.IH [of m] by simp
  next
    case (Some d)
    have "m \<le> max (fst d) m" by simp
    also have "\<dots> \<le> fold (\<lambda>x m. case x of None \<Rightarrow> m | Some d \<Rightarrow> max (fst d) m) g (max (fst d) m)"
      by (rule Cons.IH)
    finally show ?thesis using Some by simp
  qed
qed

lemma fold_max_member:
  "Some d \<in> set g \<Longrightarrow> fst d \<le> fold (\<lambda>x m. case x of None \<Rightarrow> m | Some d \<Rightarrow> max (fst d) m) g (m::nat)"
proof (induction g arbitrary: m)
  case Nil
  then show ?case by simp
next
  case (Cons x g)
  show ?case
  proof (cases "x = Some d")
    case True
    have "fst d \<le> max (fst d) m" by simp
    also have "\<dots> \<le> fold (\<lambda>x m. case x of None \<Rightarrow> m | Some d \<Rightarrow> max (fst d) m) g (max (fst d) m)"
      by (rule fold_max_le)
    finally show ?thesis using True by simp
  next
    case False
    with Cons.prems have "Some d \<in> set g" by simp
    then show ?thesis using Cons.IH by (cases x) simp_all
  qed
qed

lemma calloc_address_fresh:
  "j < length g \<Longrightarrow> map_option fst (g ! j) \<noteq> Some (calloc_address g)"
proof
  assume j: "j < length g" and eq: "map_option fst (g ! j) = Some (calloc_address g)"
  then obtain d where d: "g ! j = Some d" "fst d = calloc_address g" by auto
  with j have "Some d \<in> set g" by (metis nth_mem)
  then have "fst d \<le> fold (\<lambda>x m. case x of None \<Rightarrow> m | Some d \<Rightarrow> max (fst d) m) g 0"
    by (rule fold_max_member)
  with d(2) show False by (simp add: calloc_address_def)
qed

lemma destroy_loop_end: "\<not> j < MAX_DEVICES \<Longrightarrow> device_destroy_loop j a g = j"
  by (simp add: device_destroy_loop.simps [of j])

lemma destroy_loop_hit: "j < MAX_DEVICES \<Longrightarrow> map_option fst (g ! j) = Some a \<Longrightarrow> device_destroy_loop j a g = j"
  by (simp add: device_destroy_loop.simps [of j])

lemma destroy_loop_skip:
  "j < MAX_DEVICES \<Longrightarrow> map_option fst (g ! j) \<noteq> Some a \<Longrightarrow> device_destroy_loop j a g = device_destroy_loop (Suc j) a g"
  by (simp add: device_destroy_loop.simps [of j])

lemma destroy_loop_absent:
  assumes "j \<le> MAX_DEVICES" and "\<And>i. j \<le> i \<Longrightarrow> i < MAX_DEVICES \<Longrightarrow> map_option fst (g ! i) \<noteq> Some a"
  shows "device_destroy_loop j a g = MAX_DEVICES"
  using assms
proof (induction rule: inc_induct)
  case base
  show ?case by (simp add: destroy_loop_end)
next
  case (step n)
  have "device_destroy_loop n a g = device_destroy_loop (Suc n) a g"
    using step.hyps step.prems [of n] by (simp add: destroy_loop_skip)
  moreover have "device_destroy_loop (Suc n) a g = MAX_DEVICES"
    using step.prems by (intro step.IH) auto
  ultimately show ?case by simp
qed

lemma destroy_loop_first:
  assumes "j \<le> k" and "k < MAX_DEVICES" and "map_option fst (g ! k) = Some a"
    and "\<And>i. j \<le> i \<Longrightarrow> i < k \<Longrightarrow> map_option fst (g ! i) \<noteq> Some a"
  shows "device_destroy_loop j a g = k"
  using assms
proof (induction rule: inc_induct)
  case base
  then show ?case by (simp add: destroy_loop_hit)
next
  case (step n)
  have "device_destroy_loop n a g = device_destroy_loop (Suc n) a g"
    using step.hyps step.prems(1) step.prems(3) [of n] by (simp add: destroy_loop_skip)
  moreover have "device_destroy_loop (Suc n) a g = k"
    using step.prems by (intro step.IH) auto
  ultimately show ?case by simp
qed

lemma device_destroy_cases: "device_destroy a g = g \<or> (\<exists>j<MAX_DEVICES. device_destroy a g = g[j := None])"
  by (auto simp: device_destroy_def Let_def)

lemma device_destroy_fresh:
  assumes "registry_array g"
  shows "device_destroy (calloc_address g) g = g"
proof -
  have "device_destroy_loop 0 (calloc_address g) g = MAX_DEVICES"
  proof (rule destroy_loop_absent)
    show "0 \<le> MAX_DEVICES" by simp
  next
    fix i assume "i < MAX_DEVICES"
    with assms have "i < length g" by (simp add: registry_array_def)
    then show "map_option fst (g ! i) \<noteq> Some (calloc_address g)" by (rule calloc_address_fresh)
  qed
  then show ?thesis by (simp add: device_destroy_def)
qed

lemma register_loop_cases:
  assumes "j \<le> MAX_DEVICES"
  shows "device_register_loop j dev g = (0, g) \<or>
         (\<exists>k. j \<le> k \<and> k < MAX_DEVICES \<and> g ! k = None \<and> device_register_loop j dev g = (1, g[k := Some dev]))"
proof (cases "\<exists>k. j \<le> k \<and> k < MAX_DEVICES \<and> g ! k = None")
  case False
  then have "device_register_loop j dev g = (0, g)"
    using assms by (intro register_loop_full) auto
  then show ?thesis by simp
next
  case True
  define k where "k = (LEAST k. j \<le> k \<and> k < MAX_DEVICES \<and> g ! k = None)"
  from True have k: "j \<le> k \<and> k < MAX_DEVICES \<and> g ! k = None"
    unfolding k_def by (rule LeastI_ex)
  have "g ! i \<noteq> None" if "j \<le> i" "i < k" for i
  proof
    assume "g ! i = None"
    with that k have "k \<le> i" unfolding k_def by (intro Least_le) simp
    with that show False by simp
  qed
  with k have "device_register_loop j dev g = (1, g[k := Some dev])"
    by (intro register_loop_free) auto
  with k show ?thesis by blast
qed

lemma device_register_cases:
  "device_register dev g = (0, g) \<or>
   (\<exists>k<MAX_DEVICES. g ! k = None \<and> device_register dev g = (1, g[k := Some dev]))"
  using register_loop_cases [of 0 dev g] by (auto simp: device_register_def)

lemma do_call_globals: "do_call os c s = (r, s') \<Longrightarrow> globals s' = globals s"
  by (auto simp: do_call_def Let_def globals_def)


lemma mountpoint_loop_globals:
  "mountpoint_loop os tmp s = Some (r, s') \<Longrightarrow> globals s' = globals s"
proof (induction os tmp s rule: mountpoint_loop.induct)
  case (1 os tmp s)
  obtain r1 s1 where c: "do_call os (Stat tmp) s = (r1, s1)" by (cases "do_call os (Stat tmp) s")
  then have g1: "globals s1 = globals s" by (rule do_call_globals)
  show ?case
  proof (cases "r1 = 0 \<and> length tmp \<noteq> PATH_MAX - 2 \<and> \<not> PATH_MAX - 1 \<le> length tmp")
    case True
    with c "1.prems" have "mountpoint_loop os (tmp @ ''_'') s1 = Some (r, s')"
      by (simp add: mountpoint_loop.simps [of os tmp s])
    with "1.IH" [OF c [symmetric]] True have "globals s' = globals s1" by simp
    with g1 show ?thesis by simp
  next
    case False
    with c "1.prems" have "s' = s1"
      by (auto simp add: mountpoint_loop.simps [of os tmp s] split: if_splits)
    with g1 show ?thesis by simp
  qed
qed

lemma device_create_mountpoint_globals:
  "device_create_mountpoint os dev s = Some (r, s') \<Longrightarrow> globals s' = globals s"
  by (auto simp: device_create_mountpoint_def Let_def split: option.splits dest: mountpoint_loop_globals)

section \<open>Creation\<close>

lemma device_new_fields_result:
  assumes "device_new_fields os dev s = Some (x, s')"
  shows "globals s' = globals s \<and>
         (\<forall>d. x = Some d \<longrightarrow> udev_devnode dev = Some (devnode d) \<and> udev d = dev \<and>
            udev_device_get_property_value dev ''ID_FS_TYPE'' = Some (filesystem d))"
  using assms
  by (auto simp: device_new_fields_def Let_def
      split: option.splits if_splits bind_splits prod.splits
      dest: device_create_mountpoint_globals)

lemma destroy_fresh_state:
  "registry_array (g_devices s) \<Longrightarrow> globals (destroy (calloc_address (g_devices s)) s) = globals s"
  by (auto simp: destroy_def globals_def device_destroy_fresh)

lemma device_new_result:
  assumes new: "device_new os dev s = Some (r, s')" and arr: "registry_array (g_devices s)"
  shows "(r = None \<and> globals s' = globals s) \<or>
         (\<exists>device k. r = Some device \<and> k < MAX_DEVICES \<and> g_devices s ! k = None \<and>
            g_devices s' = (g_devices s)[k := Some device] \<and>
            g_fstab s' = g_fstab s \<and> g_mtab s' = g_mtab s \<and> g_uid s' = g_uid s \<and> g_gid s' = g_gid s \<and>
            fst device = calloc_address (g_devices s) \<and>
            udev_devnode dev = Some (devnode (snd device)) \<and> udev (snd device) = dev)"
proof -
  from new obtain noauto where na: "fstab_has_option (g_fstab s) dev ''+noauto'' = Some noauto"
    by (auto simp: device_new_def split: bind_splits)
  obtain m s1 where c: "do_call os Calloc s = (m, s1)" by (cases "do_call os Calloc s")
  then have g1: "globals s1 = globals s" by (rule do_call_globals)
  from new na have new1: "(if noauto then Some (None, s)
       else if m = 0 then Some (None, s1)
       else device_new_fields os dev s1 \<bind>
              (\<lambda>(fields, s2).
                 case fields of None \<Rightarrow> Some (None, destroy (calloc_address (g_devices s1)) s2)
                 | Some d \<Rightarrow>
                     case device_register (calloc_address (g_devices s1), d) (g_devices s2) of
                       (r, g) \<Rightarrow>
                         if r = 0 then Some (None, destroy (calloc_address (g_devices s1)) (s2\<lparr>g_devices := g\<rparr>))
                         else Some (Some (calloc_address (g_devices s1), d), s2\<lparr>g_devices := g\<rparr>))) = Some (r, s')"
    by (cases noauto; cases "m = 0") (simp_all add: device_new_def c Let_def)
  show ?thesis
  proof (cases "noauto \<or> m = 0")
    case True
    with new1 g1 show ?thesis by (auto split: if_splits)
  next
    case False
    define a where "a = calloc_address (g_devices s1)"
    from new1 False have new2: "device_new_fields os dev s1 \<bind>
              (\<lambda>(fields, s2).
                 case fields of None \<Rightarrow> Some (None, destroy a s2)
                 | Some d \<Rightarrow>
                     case device_register (a, d) (g_devices s2) of
                       (r, g) \<Rightarrow>
                         if r = 0 then Some (None, destroy a (s2\<lparr>g_devices := g\<rparr>))
                         else Some (Some (a, d), s2\<lparr>g_devices := g\<rparr>)) = Some (r, s')"
      unfolding a_def by simp
    then obtain fields s2 where
      f: "device_new_fields os dev s1 = Some (fields, s2)"
      by (auto split: bind_splits)
    from device_new_fields_result [OF f] g1 have g2: "globals s2 = globals s" by simp
    then have gd: "g_devices s2 = g_devices s" and gd1: "g_devices s1 = g_devices s"
      using g1 by (simp_all add: globals_def)
    from arr gd have "registry_array (g_devices s2)" by simp
    then have fresh: "globals (destroy a s2) = globals s"
      using destroy_fresh_state [of s2] g2 gd gd1 by (simp add: a_def)
    show ?thesis
    proof (cases fields)
      case None
      with new2 f have "r = None" "s' = destroy a s2" by auto
      with fresh show ?thesis by simp
    next
      case (Some d)
      from device_new_fields_result [OF f] Some
      have d: "udev_devnode dev = Some (devnode d)" "udev d = dev" by auto
      obtain x g where reg: "device_register (a, d) (g_devices s2) = (x, g)"
        by (cases "device_register (a, d) (g_devices s2)")
      show ?thesis
      proof (cases "x = 0")
        case True
        with reg device_register_cases [of "(a, d)" "g_devices s2"] have "g = g_devices s2" by auto
        then have "s2\<lparr>g_devices := g\<rparr> = s2" by simp
        moreover from new2 f Some reg True
        have "r = None" "s' = destroy a (s2\<lparr>g_devices := g\<rparr>)" by auto
        ultimately show ?thesis using fresh by simp
      next
        case nz: False
        with reg device_register_cases [of "(a, d)" "g_devices s2"] gd
        obtain k where k: "k < MAX_DEVICES" "g_devices s ! k = None" "g = (g_devices s)[k := Some (a, d)]"
          by auto
        from new2 f Some reg nz
        have "r = Some (a, d)" "s' = s2\<lparr>g_devices := g\<rparr>" by auto
        with k d g2 gd1 show ?thesis by (auto simp: globals_def a_def)
      qed
    qed
  qed
qed





text \<open>
  Claim C9. For a device whose \<^verbatim>\<open>ID_FS_TYPE\<close> is missing or is \<^verbatim>\<open>swap\<close>,
  \<^verbatim>\<open>LVM2_member\<close> or \<^verbatim>\<open>crypto_LUKS\<close>, \<^verbatim>\<open>device_new\<close> returns NULL, for every
  registry, every answer of the outside world and every fstab snapshot on which the
  resolver returns at all (with a match or without one).
\<close>

theorem device_new_rejects_filesystem_types:
  assumes "udev_device_get_property_value dev ''ID_FS_TYPE'' \<in>
             {None, Some ''swap'', Some ''LVM2_member'', Some ''crypto_LUKS''}"
    and "fstab_search (g_fstab s) dev = Some entry"
  shows "\<exists>s'. device_new os dev s = Some (None, s')"
proof -
  obtain m s1 where c: "do_call os Calloc s = (m, s1)" by (cases "do_call os Calloc s")
  from assms(1) have "device_new_fields os dev s1 = Some (None, s1)"
    by (auto simp: device_new_fields_def Let_def)
  with assms(2) c show ?thesis
    by (simp add: device_new_def fstab_has_option_def Let_def)
qed

theorem device_new_rejects_filesystem_types_witness:
  "udev_device_get_property_value sda2 ''ID_FS_TYPE'' \<in>
      {None, Some ''swap'', Some ''LVM2_member'', Some ''crypto_LUKS''} \<and>
   fstab_search fstab_swap sda2 = Some (Some \<lparr>fs_source = ''/dev/sda2'', fs_target = Some ''none'', fs_options = [''sw'']\<rparr>) \<and>
   (\<exists>s'. device_new os_ok sda2 (boot_state\<lparr>g_fstab := fstab_swap\<rparr>) = Some (None, s'))"
proof -
  have a: "udev_device_get_property_value sda2 ''ID_FS_TYPE'' \<in>
      {None, Some ''swap'', Some ''LVM2_member'', Some ''crypto_LUKS''}"
    by (simp add: udev_device_get_property_value_def sda2_def)
  have b: "fstab_search (g_fstab (boot_state\<lparr>g_fstab := fstab_swap\<rparr>)) sda2 =
      Some (Some \<lparr>fs_source = ''/dev/sda2'', fs_target = Some ''none'', fs_options = [''sw'']\<rparr>)"
    by (simp add: fstab_search_def fstab_swap_def sda2_def mnt_table_find_source_def)
  from device_new_rejects_filesystem_types [OF a b, of os_ok] a b show ?thesis by simp
qed

text \<open>
  Claim C3 fails on the code. The device \<^verbatim>\<open>/dev/sdb1\<close> has the label \<^verbatim>\<open>DATA\<close> and no
  \<^verbatim>\<open>ID_FS_UUID\<close>; the table has no entry for the device path and has an entry whose
  source is \<^verbatim>\<open>LABEL=DATA\<close>. \<^verbatim>\<open>fstab_search\<close> returns NULL: it returns as soon as
  the UUID is found missing and never looks at the label.
\<close>

theorem fstab_search_label_without_uuid:
  "udev_devnode sdb1 = Some ''/dev/sdb1'' \<and>
   udev_device_get_property_value sdb1 ''ID_FS_UUID'' = None \<and>
   udev_device_get_property_value sdb1 ''ID_FS_LABEL'' = Some ''DATA'' \<and>
   mnt_table_find_source fstab_label ''/dev/sdb1'' = None \<and>
   mnt_table_find_source fstab_label ''LABEL=DATA'' =
     Some \<lparr>fs_source = ''LABEL=DATA'', fs_target = Some ''/media/data'', fs_options = [''defaults'']\<rparr> \<and>
   fstab_search fstab_label sdb1 = Some None"
  by (simp add: fstab_search_def fstab_label_def sdb1_def mnt_table_find_source_def
      udev_device_get_property_value_def)

text \<open>
  Claim C6. For a device that \<^verbatim>\<open>device_search\<close> finds registered and that the mtab
  snapshot shows mounted: when \<^verbatim>\<open>mnt_context_umount\<close> fails (returns \<open>r \<noteq> 0\<close>),
  \<^verbatim>\<open>device_unmount\<close> returns 0 and the state afterwards is the state before with
  that one call added to the log. The registry is unchanged, so the record stays
  registered and is not destroyed, and neither \<^verbatim>\<open>rmdir\<close> nor \<^verbatim>\<open>spawn_helper\<close> is
  called.
\<close>

theorem device_unmount_executor_failure:
  assumes "device_search (udev_devnode dev) (g_devices s) = Some device"
    and "device_is_mounted s dev = Some True"
    and "os (trace s) (Umount (devnode (snd device))) = r"
    and "r \<noteq> 0"
  shows "device_unmount os dev s = Some (0, s\<lparr>trace := trace s @ [(Umount (devnode (snd device)), r)]\<rparr>)"
  using assms by (simp add: device_unmount_def do_call_def)

lemma state_sdc1_mounted_facts:
  "device_search (udev_devnode sdc1) (g_devices state_sdc1_mounted) = Some sdc1_record"
  "device_is_mounted state_sdc1_mounted sdc1 = Some True"
  "os_busy (trace state_sdc1_mounted) (Umount (devnode (snd sdc1_record))) = -1"
  "devnode (snd sdc1_record) = ''/dev/sdc1''"
  "trace state_sdc1_mounted = []"
  by code_simp+

theorem device_unmount_executor_failure_witness:
  "device_search (udev_devnode sdc1) (g_devices state_sdc1_mounted) = Some sdc1_record \<and>
   device_is_mounted state_sdc1_mounted sdc1 = Some True \<and>
   os_busy (trace state_sdc1_mounted) (Umount ''/dev/sdc1'') = -1 \<and>
   device_unmount os_busy sdc1 state_sdc1_mounted =
     Some (0, state_sdc1_mounted\<lparr>trace := [(Umount ''/dev/sdc1'', -1)]\<rparr>)"
  using device_unmount_executor_failure [of sdc1 state_sdc1_mounted sdc1_record os_busy "-1"]
    state_sdc1_mounted_facts
  by simp

section \<open>Unmounting\<close>

text \<open>
  Claim C5, as amended. For a device that \<^verbatim>\<open>device_search\<close> finds registered and on
  which the resolver returns for the mtab snapshot, \<^verbatim>\<open>device_unmount\<close> returns, and
  the calls it adds to the log contain exactly one \<^verbatim>\<open>mnt_context_umount\<close>, with the
  device path (\<^verbatim>\<open>devnode\<close>) of the record as target, when the snapshot resolves the
  device to an entry, and none when it does not.
\<close>

theorem device_unmount_executor_call:
  assumes "device_search (udev_devnode dev) (g_devices s) = Some device"
    and "fstab_search (g_mtab s) dev = Some entry"
  shows "\<exists>r s' new. device_unmount os dev s = Some (r, s') \<and> trace s' = trace s @ new \<and>
           umount_targets new = (if entry = None then [] else [devnode (snd device)])"
proof (cases entry)
  case None
  with assms show ?thesis
    by (simp add: device_unmount_def device_is_mounted_def do_call_def spawn_helper_def
        CALLBACK_PATH_def destroy_def Let_def umount_targets_def List.map_filter_simps)
next
  case (Some e)
  show ?thesis
  proof (cases "os (trace s) (Umount (devnode (snd device))) = 0")
    case True
    with Some assms show ?thesis
      by (simp add: device_unmount_def device_is_mounted_def do_call_def spawn_helper_def
          CALLBACK_PATH_def destroy_def Let_def umount_targets_def List.map_filter_simps)
  next
    case False
    with Some assms show ?thesis
      by (simp add: device_unmount_def device_is_mounted_def do_call_def spawn_helper_def
          CALLBACK_PATH_def destroy_def Let_def umount_targets_def List.map_filter_simps)
  qed
qed

lemma device_unmount_sdc1:
  "device_unmount os_ok sdc1 state_sdc1_mounted =
     Some (1, state_sdc1_mounted\<lparr>g_devices := empty_registry,
       trace := [(Umount ''/dev/sdc1'', 0), (Rmdir ''/mnt/My_Disk'', 0),
                 (Spawn_helper None ''unmount'' ''/mnt/My_Disk'', 0)]\<rparr>)"
  by code_simp

lemma mtab_sdc1_search:
  "fstab_search (g_mtab state_sdc1_mounted) sdc1 =
     Some (Some \<lparr>fs_source = ''/dev/sdc1'', fs_target = Some ''/mnt/My_Disk'', fs_options = [''rw'']\<rparr>)"
  by code_simp

theorem device_unmount_executor_call_witness:
  "device_search (udev_devnode sdc1) (g_devices state_sdc1_mounted) = Some sdc1_record \<and>
   fstab_search (g_mtab state_sdc1_mounted) sdc1 =
     Some (Some \<lparr>fs_source = ''/dev/sdc1'', fs_target = Some ''/mnt/My_Disk'', fs_options = [''rw'']\<rparr>) \<and>
   (\<exists>r s' new. device_unmount os_ok sdc1 state_sdc1_mounted = Some (r, s') \<and>
      trace s' = trace state_sdc1_mounted @ new \<and> umount_targets new = [''/dev/sdc1''])"
  using device_unmount_executor_call [OF state_sdc1_mounted_facts(1) mtab_sdc1_search, of os_ok]
    state_sdc1_mounted_facts(1,4) mtab_sdc1_search
  by simp

text \<open>
  Claim C5 as stated fails: the record of \<^verbatim>\<open>/dev/sdc1\<close> has the mountpoint
  \<^verbatim>\<open>/mnt/My_Disk\<close> and the mtab snapshot shows the device mounted;
  \<^verbatim>\<open>device_unmount\<close> calls \<^verbatim>\<open>mnt_context_umount\<close> once, with the target
  \<^verbatim>\<open>/dev/sdc1\<close>, not with the mountpoint.
\<close>

theorem device_unmount_target_counterexample:
  "device_search (udev_devnode sdc1) (g_devices state_sdc1_mounted) = Some sdc1_record \<and>
   mountpoint (snd sdc1_record) = ''/mnt/My_Disk'' \<and>
   device_is_mounted state_sdc1_mounted sdc1 = Some True \<and>
   device_unmount os_ok sdc1 state_sdc1_mounted =
     Some (1, state_sdc1_mounted\<lparr>g_devices := empty_registry,
       trace := [(Umount ''/dev/sdc1'', 0), (Rmdir ''/mnt/My_Disk'', 0),
                 (Spawn_helper None ''unmount'' ''/mnt/My_Disk'', 0)]\<rparr>) \<and>
   umount_targets [(Umount ''/dev/sdc1'', 0), (Rmdir ''/mnt/My_Disk'', 0),
                 (Spawn_helper None ''unmount'' ''/mnt/My_Disk'', 0)] = [''/dev/sdc1'']"
  using device_unmount_sdc1 state_sdc1_mounted_facts(1,2)
  by (simp add: sdc1_record_def umount_targets_def List.map_filter_simps)

section \<open>The mountpoint namer\<close>

lemma candidate_shift: "candidate (tmp @ ''_'') i = candidate tmp (Suc i)"
  by (simp add: candidate_def)

lemma stat_log_shift:
  "stat_log os (tr @ [(Stat tmp, os tr (Stat tmp))]) (tmp @ ''_'') i = stat_log os tr tmp (Suc i)"
proof (induction i)
  case 0
  show ?case by (simp add: candidate_def)
next
  case (Suc i)
  show ?case
    unfolding stat_log.simps(2) [of os _ "tmp @ ''_''" i] Suc.IH candidate_shift
    by (simp add: Let_def)
qed

lemma path_exists_shift:
  "path_exists os (tr @ [(Stat tmp, os tr (Stat tmp))]) (tmp @ ''_'') i = path_exists os tr tmp (Suc i)"
  unfolding path_exists_def stat_log_shift candidate_shift by (rule refl)

lemma mountpoint_loop_found:
  assumes "\<forall>i<k. path_exists os (trace s) tmp i" and "\<not> path_exists os (trace s) tmp k"
    and "length tmp + k \<le> PATH_MAX - 2"
  shows "mountpoint_loop os tmp s =
           Some (Some (candidate tmp k), s\<lparr>trace := stat_log os (trace s) tmp (Suc k)\<rparr>)"
  using assms
proof (induction k arbitrary: tmp s)
  case 0
  then have "os (trace s) (Stat tmp) \<noteq> 0" by (simp add: path_exists_def candidate_def)
  then show ?case
    by (simp add: mountpoint_loop.simps [of os tmp s] do_call_def candidate_def Let_def)
next
  case (Suc k)
  define s1 where "s1 = s\<lparr>trace := trace s @ [(Stat tmp, os (trace s) (Stat tmp))]\<rparr>"
  from Suc.prems(1) have ex: "os (trace s) (Stat tmp) = 0"
    by (auto simp: path_exists_def candidate_def)
  from Suc.prems(3) have len: "length tmp \<noteq> PATH_MAX - 2" "\<not> PATH_MAX - 1 \<le> length tmp" by simp_all
  have step: "mountpoint_loop os tmp s = mountpoint_loop os (tmp @ ''_'') s1"
    using ex len by (simp add: mountpoint_loop.simps [of os tmp s] do_call_def Let_def s1_def)
  have tr1: "trace s1 = trace s @ [(Stat tmp, os (trace s) (Stat tmp))]" by (simp add: s1_def)
  have "mountpoint_loop os (tmp @ ''_'') s1 =
          Some (Some (candidate (tmp @ ''_'') k), s1\<lparr>trace := stat_log os (trace s1) (tmp @ ''_'') (Suc k)\<rparr>)"
  proof (rule Suc.IH)
    show "\<forall>i<k. path_exists os (trace s1) (tmp @ ''_'') i"
      using Suc.prems(1) unfolding tr1 path_exists_shift by auto
    show "\<not> path_exists os (trace s1) (tmp @ ''_'') k"
      using Suc.prems(2) unfolding tr1 path_exists_shift by simp
    show "length (tmp @ ''_'') + k \<le> PATH_MAX - 2" using Suc.prems(3) by simp
  qed
  also have "candidate (tmp @ ''_'') k = candidate tmp (Suc k)" by (rule candidate_shift)
  also have "stat_log os (trace s1) (tmp @ ''_'') (Suc k) = stat_log os (trace s) tmp (Suc (Suc k))"
    unfolding tr1 by (rule stat_log_shift)
  also have "s1\<lparr>trace := stat_log os (trace s) tmp (Suc (Suc k))\<rparr> = s\<lparr>trace := stat_log os (trace s) tmp (Suc (Suc k))\<rparr>"
    by (simp add: s1_def)
  finally show ?case using step by simp
qed

lemma mountpoint_loop_exhausted:
  assumes "length tmp + n = PATH_MAX - 2" and "\<forall>i\<le>n. path_exists os (trace s) tmp i"
  shows "mountpoint_loop os tmp s = Some (None, s\<lparr>trace := stat_log os (trace s) tmp (Suc n)\<rparr>)"
  using assms
proof (induction n arbitrary: tmp s)
  case 0
  then have "os (trace s) (Stat tmp) = 0" "length tmp = PATH_MAX - 2"
    by (simp_all add: path_exists_def candidate_def)
  then show ?case
    by (simp add: mountpoint_loop.simps [of os tmp s] do_call_def candidate_def Let_def)
next
  case (Suc n)
  define s1 where "s1 = s\<lparr>trace := trace s @ [(Stat tmp, os (trace s) (Stat tmp))]\<rparr>"
  from Suc.prems(2) have ex: "os (trace s) (Stat tmp) = 0"
    by (auto simp: path_exists_def candidate_def)
  from Suc.prems(1) have len: "length tmp \<noteq> PATH_MAX - 2" "\<not> PATH_MAX - 1 \<le> length tmp" by simp_all
  have step: "mountpoint_loop os tmp s = mountpoint_loop os (tmp @ ''_'') s1"
    using ex len by (simp add: mountpoint_loop.simps [of os tmp s] do_call_def Let_def s1_def)
  have tr1: "trace s1 = trace s @ [(Stat tmp, os (trace s) (Stat tmp))]" by (simp add: s1_def)
  have "mountpoint_loop os (tmp @ ''_'') s1 =
          Some (None, s1\<lparr>trace := stat_log os (trace s1) (tmp @ ''_'') (Suc n)\<rparr>)"
  proof (rule Suc.IH)
    show "length (tmp @ ''_'') + n = PATH_MAX - 2" using Suc.prems(1) by simp
    show "\<forall>i\<le>n. path_exists os (trace s1) (tmp @ ''_'') i"
      using Suc.prems(2) unfolding tr1 path_exists_shift by auto
  qed
  also have "stat_log os (trace s1) (tmp @ ''_'') (Suc n) = stat_log os (trace s) tmp (Suc (Suc n))"
    unfolding tr1 by (rule stat_log_shift)
  also have "s1\<lparr>trace := stat_log os (trace s) tmp (Suc (Suc n))\<rparr> = s\<lparr>trace := stat_log os (trace s) tmp (Suc (Suc n))\<rparr>"
    by (simp add: s1_def)
  finally show ?case using step by simp
qed

lemma initial_candidate:
  assumes "mountpoint_name dev = Some name" and "length (MOUNT_PATH @ name) \<le> PATH_MAX - 2"
  shows "device_create_mountpoint os dev s = mountpoint_loop os (MOUNT_PATH @ sanitize name) s"
proof -
  have "map (\<lambda>c. if c = CHR '' '' then CHR ''_'' else c) (take (PATH_MAX - 1) (MOUNT_PATH @ name))
        = MOUNT_PATH @ sanitize name"
    using assms(2) by (simp add: sanitize_def MOUNT_PATH_def)
  with assms(1) show ?thesis
    by (simp add: device_create_mountpoint_def mountpoint_name_def Let_def split: option.splits)
qed

text \<open>
  Claim C8, as amended. Without label, UUID and serial the namer returns NULL. With a
  name, the first present of the three, whose first candidate (the base directory
  followed by the name) has at most \<open>PATH_MAX - 2\<close> characters: when the candidates
  before the \<open>k\<close>-th exist, the \<open>k\<close>-th does not, and it has at most \<open>PATH_MAX - 2\<close>
  characters, the namer returns the \<open>k\<close>-th candidate; when every candidate of at most
  \<open>PATH_MAX - 2\<close> characters exists, the namer returns NULL.
\<close>

theorem device_create_mountpoint_spec:
  "(mountpoint_name dev = None \<longrightarrow> device_create_mountpoint os dev s = Some (None, s)) \<and>
   (\<forall>name base. mountpoint_name dev = Some name \<and> base = MOUNT_PATH @ sanitize name \<and>
        length base \<le> PATH_MAX - 2 \<longrightarrow>
      (\<forall>k. (\<forall>i<k. path_exists os (trace s) base i) \<and> \<not> path_exists os (trace s) base k \<and>
            length (candidate base k) \<le> PATH_MAX - 2 \<longrightarrow>
         device_create_mountpoint os dev s =
           Some (Some (candidate base k), s\<lparr>trace := stat_log os (trace s) base (Suc k)\<rparr>)) \<and>
      ((\<forall>k. length (candidate base k) \<le> PATH_MAX - 2 \<longrightarrow> path_exists os (trace s) base k) \<longrightarrow>
         device_create_mountpoint os dev s =
           Some (None, s\<lparr>trace := stat_log os (trace s) base (Suc (PATH_MAX - 2 - length base))\<rparr>)))"
proof (intro conjI allI impI)
  assume "mountpoint_name dev = None"
  then show "device_create_mountpoint os dev s = Some (None, s)"
    by (simp add: device_create_mountpoint_def mountpoint_name_def Let_def split: option.splits)
next
  fix name base k
  assume a: "mountpoint_name dev = Some name \<and> base = MOUNT_PATH @ sanitize name \<and> length base \<le> PATH_MAX - 2"
    and b: "(\<forall>i<k. path_exists os (trace s) base i) \<and> \<not> path_exists os (trace s) base k \<and>
            length (candidate base k) \<le> PATH_MAX - 2"
  from a have "length (MOUNT_PATH @ name) \<le> PATH_MAX - 2" by (auto simp: sanitize_def)
  with a have "device_create_mountpoint os dev s = mountpoint_loop os base s"
    by (simp add: initial_candidate)
  moreover from b have "mountpoint_loop os base s =
      Some (Some (candidate base k), s\<lparr>trace := stat_log os (trace s) base (Suc k)\<rparr>)"
    by (intro mountpoint_loop_found) (simp_all add: candidate_def)
  ultimately show "device_create_mountpoint os dev s =
      Some (Some (candidate base k), s\<lparr>trace := stat_log os (trace s) base (Suc k)\<rparr>)" by simp
next
  fix name base
  assume a: "mountpoint_name dev = Some name \<and> base = MOUNT_PATH @ sanitize name \<and> length base \<le> PATH_MAX - 2"
    and b: "\<forall>k. length (candidate base k) \<le> PATH_MAX - 2 \<longrightarrow> path_exists os (trace s) base k"
  from a have "length (MOUNT_PATH @ name) \<le> PATH_MAX - 2" by (auto simp: sanitize_def)
  with a have "device_create_mountpoint os dev s = mountpoint_loop os base s"
    by (simp add: initial_candidate)
  moreover have "mountpoint_loop os base s =
      Some (None, s\<lparr>trace := stat_log os (trace s) base (Suc (PATH_MAX - 2 - length base))\<rparr>)"
  proof (rule mountpoint_loop_exhausted)
    from a have "length base \<le> PATH_MAX - 2" by blast
    then show "length base + (PATH_MAX - 2 - length base) = PATH_MAX - 2" by arith
    show "\<forall>i\<le>PATH_MAX - 2 - length base. path_exists os (trace s) base i"
      using a b by (auto simp: candidate_def)
  qed
  ultimately show "device_create_mountpoint os dev s =
      Some (None, s\<lparr>trace := stat_log os (trace s) base (Suc (PATH_MAX - 2 - length base))\<rparr>)" by simp
qed

lemma my_disk_facts:
  "mountpoint_name sdc1 = Some ''My Disk''"
  "MOUNT_PATH @ sanitize ''My Disk'' = ''/mnt/My_Disk''"
  "path_exists os_collide (trace boot_state) ''/mnt/My_Disk'' 0"
  "path_exists os_collide (trace boot_state) ''/mnt/My_Disk'' 1"
  "\<not> path_exists os_collide (trace boot_state) ''/mnt/My_Disk'' 2"
  "candidate ''/mnt/My_Disk'' 2 = ''/mnt/My_Disk__''"
  "stat_log os_collide (trace boot_state) ''/mnt/My_Disk'' (Suc 2) =
     [(Stat ''/mnt/My_Disk'', 0), (Stat ''/mnt/My_Disk_'', 0), (Stat ''/mnt/My_Disk__'', -1)]"
  by code_simp+

theorem device_create_mountpoint_spec_witness:
  "mountpoint_name sdc1 = Some ''My Disk'' \<and>
   MOUNT_PATH @ sanitize ''My Disk'' = ''/mnt/My_Disk'' \<and>
   path_exists os_collide (trace boot_state) ''/mnt/My_Disk'' 0 \<and>
   path_exists os_collide (trace boot_state) ''/mnt/My_Disk'' 1 \<and>
   \<not> path_exists os_collide (trace boot_state) ''/mnt/My_Disk'' 2 \<and>
   device_create_mountpoint os_collide sdc1 boot_state =
     Some (Some ''/mnt/My_Disk__'',
       boot_state\<lparr>trace := [(Stat ''/mnt/My_Disk'', 0), (Stat ''/mnt/My_Disk_'', 0),
                            (Stat ''/mnt/My_Disk__'', -1)]\<rparr>)"
proof -
  have before: "\<forall>i<2. path_exists os_collide (trace boot_state) ''/mnt/My_Disk'' i"
    using my_disk_facts(3,4) by (auto simp: less_2_cases_iff)
  have fits: "length ''/mnt/My_Disk'' \<le> PATH_MAX - 2" "length (candidate ''/mnt/My_Disk'' 2) \<le> PATH_MAX - 2"
    by (simp_all add: PATH_MAX_def candidate_def)
  from device_create_mountpoint_spec [of sdc1 os_collide boot_state]
  have "\<forall>name base. mountpoint_name sdc1 = Some name \<and> base = MOUNT_PATH @ sanitize name \<and>
        length base \<le> PATH_MAX - 2 \<longrightarrow>
      (\<forall>k. (\<forall>i<k. path_exists os_collide (trace boot_state) base i) \<and>
            \<not> path_exists os_collide (trace boot_state) base k \<and>
            length (candidate base k) \<le> PATH_MAX - 2 \<longrightarrow>
         device_create_mountpoint os_collide sdc1 boot_state =
           Some (Some (candidate base k), boot_state\<lparr>trace := stat_log os_collide (trace boot_state) base (Suc k)\<rparr>))"
    by blast
  then have "device_create_mountpoint os_collide sdc1 boot_state =
      Some (Some (candidate ''/mnt/My_Disk'' 2),
        boot_state\<lparr>trace := stat_log os_collide (trace boot_state) ''/mnt/My_Disk'' (Suc 2)\<rparr>)"
    using my_disk_facts(1,2,5) before fits by metis
  with my_disk_facts show ?thesis by simp
qed

lemma mountpoint_loop_free:
  "os (trace s) (Stat tmp) \<noteq> 0 \<Longrightarrow>
   mountpoint_loop os tmp s = Some (Some tmp, s\<lparr>trace := trace s @ [(Stat tmp, os (trace s) (Stat tmp))]\<rparr>)"
  by (simp add: mountpoint_loop.simps [of os tmp s] do_call_def Let_def)

lemma long_label_candidate:
  "map (\<lambda>c. if c = CHR '' '' then CHR ''_'' else c) (take (PATH_MAX - 1) (MOUNT_PATH @ replicate 4091 CHR ''a''))
     = ''/mnt/'' @ replicate 4090 CHR ''a''"
  by (simp add: PATH_MAX_def MOUNT_PATH_def)

text \<open>
  Claim C8 as stated fails. The label of \<^verbatim>\<open>/dev/sdd1\<close> has 4091 characters, so the
  candidate, base directory and label, has 4096 characters: more than fit into
  \<^verbatim>\<open>char tmp[PATH_MAX]\<close>. No such path exists. The namer does not fail: \<^verbatim>\<open>snprintf\<close>
  cuts the candidate to 4095 characters, and the namer returns that path, which is not
  the base directory followed by the label.
\<close>

theorem device_create_mountpoint_truncates_counterexample:
  "mountpoint_name sdd1 = Some (replicate 4091 CHR ''a'') \<and>
   length (MOUNT_PATH @ sanitize (replicate 4091 CHR ''a'')) = 4096 \<and>
   PATH_MAX = 4096 \<and>
   device_create_mountpoint os_ok sdd1 boot_state =
     Some (Some (''/mnt/'' @ replicate 4090 CHR ''a''),
       boot_state\<lparr>trace := [(Stat (''/mnt/'' @ replicate 4090 CHR ''a''), -1)]\<rparr>) \<and>
   ''/mnt/'' @ replicate 4090 CHR ''a'' \<noteq> MOUNT_PATH @ sanitize (replicate 4091 CHR ''a'')"
proof -
  have name: "mountpoint_name sdd1 = Some (replicate 4091 CHR ''a'')"
    by (simp add: mountpoint_name_def sdd1_def udev_device_get_property_value_def)
  have len: "length (MOUNT_PATH @ sanitize (replicate 4091 CHR ''a'')) = 4096"
    by (simp add: MOUNT_PATH_def sanitize_def)
  have ne: "''/mnt/'' @ replicate 4090 CHR ''a'' \<noteq> MOUNT_PATH @ sanitize (replicate 4091 CHR ''a'')"
  proof
    assume "''/mnt/'' @ replicate 4090 CHR ''a'' = MOUNT_PATH @ sanitize (replicate 4091 CHR ''a'')"
    then have "length (''/mnt/'' @ replicate 4090 CHR ''a'') = length (MOUNT_PATH @ sanitize (replicate 4091 CHR ''a''))"
      by simp
    then show False by (simp add: MOUNT_PATH_def sanitize_def)
  qed
  have stat: "os_ok (trace boot_state) (Stat (''/mnt/'' @ replicate 4090 CHR ''a'')) = -1"
    by (simp add: os_ok_def boot_state_def)
  have "device_create_mountpoint os_ok sdd1 boot_state =
      mountpoint_loop os_ok (''/mnt/'' @ replicate 4090 CHR ''a'') boot_state"
    using name long_label_candidate
    by (simp add: device_create_mountpoint_def mountpoint_name_def Let_def split: option.splits)
  also have "\<dots> = Some (Some (''/mnt/'' @ replicate 4090 CHR ''a''),
       boot_state\<lparr>trace := trace boot_state @ [(Stat (''/mnt/'' @ replicate 4090 CHR ''a''), -1)]\<rparr>)"
    using mountpoint_loop_free [of os_ok boot_state "''/mnt/'' @ replicate 4090 CHR ''a''"] stat
    by simp
  also have "trace boot_state = []" by (simp add: boot_state_def)
  finally show ?thesis using name len ne by (simp add: PATH_MAX_def)
qed

section \<open>Mounting and its cleanup\<close>






lemma device_unmount_absent:
  "device_search (udev_devnode dev) (g_devices s) = None \<Longrightarrow> device_unmount os dev s = Some (0, s)"
  by (simp add: device_unmount_def)

lemma device_unmount_cases:
  assumes found: "device_search (udev_devnode dev) (g_devices s) = Some device"
    and res: "device_unmount os dev s = Some (r, s')"
  shows "(\<exists>x. x \<noteq> 0 \<and> r = 0 \<and> s' = s\<lparr>trace := trace s @ [(Umount (devnode (snd device)), x)]\<rparr>) \<or>
         (\<exists>um rm. (um = [] \<or> um = [(Umount (devnode (snd device)), 0)]) \<and> r = 1 \<and>
            s' = s\<lparr>g_devices := device_destroy (fst device) (g_devices s),
                   trace := trace s @ um @ [(Rmdir (mountpoint (snd device)), rm),
                     (Spawn_helper None ''unmount'' (mountpoint (snd device)), 0)]\<rparr>)"
proof -
  from found res obtain b where b: "device_is_mounted s dev = Some b"
    by (auto simp: device_unmount_def split: bind_splits)
  show ?thesis
  proof (cases b)
    case False
    with found res b have "r = 1 \<and>
        s' = s\<lparr>g_devices := device_destroy (fst device) (g_devices s),
               trace := trace s @ [] @ [(Rmdir (mountpoint (snd device)), os (trace s) (Rmdir (mountpoint (snd device)))),
                     (Spawn_helper None ''unmount'' (mountpoint (snd device)), 0)]\<rparr>"
      by (auto simp add: device_unmount_def do_call_def spawn_helper_def CALLBACK_PATH_def destroy_def Let_def)
    then show ?thesis by blast
  next
    case True
    define x where "x = os (trace s) (Umount (devnode (snd device)))"
    show ?thesis
    proof (cases "x = 0")
      case nz: False
      with found res b True have "r = 0 \<and> s' = s\<lparr>trace := trace s @ [(Umount (devnode (snd device)), x)]\<rparr>"
        by (auto simp add: device_unmount_def do_call_def Let_def x_def)
      with nz show ?thesis by blast
    next
      case z: True
      with found res b True have "r = 1 \<and>
        s' = s\<lparr>g_devices := device_destroy (fst device) (g_devices s),
               trace := trace s @ [(Umount (devnode (snd device)), 0)] @
                 [(Rmdir (mountpoint (snd device)),
                     os (trace s @ [(Umount (devnode (snd device)), 0)]) (Rmdir (mountpoint (snd device)))),
                  (Spawn_helper None ''unmount'' (mountpoint (snd device)), 0)]\<rparr>"
        by (auto simp add: device_unmount_def do_call_def spawn_helper_def CALLBACK_PATH_def destroy_def Let_def x_def)
      then show ?thesis by blast
    qed
  qed
qed

lemma search_loop_none_D:
  assumes "j \<le> MAX_DEVICES" and "device_search_loop j p g = None"
  shows "\<forall>i. j \<le> i \<and> i < MAX_DEVICES \<longrightarrow> \<not> matches p (g ! i)"
  using assms
proof (induction rule: inc_induct)
  case base
  show ?case by auto
next
  case (step n)
  have nm: "\<not> matches p (g ! n)"
  proof
    assume m: "matches p (g ! n)"
    then obtain d where "g ! n = Some d" by (cases "g ! n") (simp_all add: matches_def)
    with m step.hyps have "device_search_loop n p g = Some d" by (simp add: search_loop_hit)
    with step.prems show False by simp
  qed
  with step.hyps step.prems have "device_search_loop (Suc n) p g = None"
    by (simp add: search_loop_skip)
  then have rest: "\<forall>i. Suc n \<le> i \<and> i < MAX_DEVICES \<longrightarrow> \<not> matches p (g ! i)" by (rule step.IH)
  show ?case
  proof (intro allI impI)
    fix i assume i: "n \<le> i \<and> i < MAX_DEVICES"
    show "\<not> matches p (g ! i)"
    proof (cases "i = n")
      case True
      with nm show ?thesis by simp
    next
      case False
      with i have "Suc n \<le> i" by simp
      with rest i show ?thesis by blast
    qed
  qed
qed

lemma search_none_D:
  assumes "device_search (Some p) g = None" and "i < MAX_DEVICES"
  shows "\<not> matches p (g ! i)"
proof -
  from assms(1) have "device_search_loop 0 p g = None" by (simp add: device_search_def)
  with search_loop_none_D [of 0 p g] assms(2) show ?thesis by simp
qed



lemma device_mount_after_new:
  assumes new: "device_new os dev s = Some (Some device, s1)"
    and res: "device_mount os dev s = Some (r, s')"
  shows "(r = 1 \<and> globals s' = globals s1 \<and> (\<exists>xs. trace s' = trace s1 @ xs)) \<or>
         (r = 0 \<and>
          (\<exists>s3 calls r'. globals s3 = globals s1 \<and> trace s3 = trace s1 @ calls \<and>
             device_unmount os dev s3 = Some (r', s') \<and>
             ((\<exists>opts ro m. m \<noteq> 0 \<and>
                 (Mount (filesystem (snd device)) (devnode (snd device)) (mountpoint (snd device)) opts ro, m) \<in> set calls) \<or>
              (filesystem_quirks (filesystem (snd device)) AND QUIRK_OWNER_FIX = 0 \<and>
               (\<exists>c. c \<noteq> 0 \<and> (Chown (mountpoint (snd device)) (g_uid s1) (g_gid s1), c) \<in> set calls)))))"
proof -
  define mp where "mp = mountpoint (snd device)"
  define quirks where "quirks = filesystem_quirks (filesystem (snd device))"
  define mk where "mk = (Mkdir mp 755, os (trace s1) (Mkdir mp 755))"
  define s2 where "s2 = s1\<lparr>trace := trace s1 @ [mk]\<rparr>"
  define mcall where "mcall = Mount (filesystem (snd device)) (devnode (snd device)) mp
      (mount_options quirks (g_uid s1) (g_gid s1)) (type (snd device) = DEVICE_CD)"
  define m where "m = os (trace s2) mcall"
  define s3 where "s3 = s2\<lparr>trace := trace s2 @ [(mcall, m)]\<rparr>"
  define ccall where "ccall = Chown mp (g_uid s1) (g_gid s1)"
  define c where "c = os (trace s3) ccall"
  define s4 where "s4 = s3\<lparr>trace := trace s3 @ [(ccall, c)]\<rparr>"
  have g3: "globals s3 = globals s1" and t3: "trace s3 = trace s1 @ [mk, (mcall, m)]"
    by (simp_all add: s3_def s2_def globals_def)
  have g4: "globals s4 = globals s1" and t4: "trace s4 = trace s1 @ [mk, (mcall, m), (ccall, c)]"
    by (simp_all add: s4_def s3_def s2_def globals_def)
  have mount: "do_call os (Mkdir mp 755) s1 = (snd mk, s2)" "do_call os mcall s2 = (m, s3)"
    "do_call os ccall s3 = (c, s4)"
    by (simp_all add: do_call_def Let_def mk_def s2_def m_def s3_def c_def s4_def)
  have ids: "g_uid s2 = g_uid s1" "g_gid s2 = g_gid s1" "g_uid s3 = g_uid s1" "g_gid s3 = g_gid s1"
    by (simp_all add: s2_def s3_def)
  consider (mount_failed) "m \<noteq> 0"
    | (chown_failed) "m = 0" "quirks AND QUIRK_OWNER_FIX = 0" "c \<noteq> 0"
    | (chown_done) "m = 0" "quirks AND QUIRK_OWNER_FIX = 0" "c = 0"
    | (no_chown) "m = 0" "quirks AND QUIRK_OWNER_FIX \<noteq> 0"
    by blast
  then show ?thesis
  proof cases
    case mount_failed
    with res new mount ids have "device_unmount os dev s3 \<bind> (\<lambda>(_, s4). Some (0, s4)) = Some (r, s')"
      by (simp add: device_mount_def Let_def mp_def [symmetric] quirks_def [symmetric] mcall_def [symmetric])
    then obtain r' where um: "device_unmount os dev s3 = Some (r', s')" and r: "r = 0"
      by (auto split: bind_splits)
    show ?thesis
    proof (rule disjI2, intro conjI exI)
      show "r = 0" by (rule r)
      show "globals s3 = globals s1" by (rule g3)
      show "trace s3 = trace s1 @ [mk, (mcall, m)]" by (rule t3)
      show "device_unmount os dev s3 = Some (r', s')" by (rule um)
      have "(mcall, m) \<in> set [mk, (mcall, m)]" by simp
      with mount_failed
      show "(\<exists>opts ro m'. m' \<noteq> 0 \<and>
                 (Mount (filesystem (snd device)) (devnode (snd device)) (mountpoint (snd device)) opts ro, m')
                   \<in> set [mk, (mcall, m)]) \<or>
              (filesystem_quirks (filesystem (snd device)) AND QUIRK_OWNER_FIX = 0 \<and>
               (\<exists>c. c \<noteq> 0 \<and> (Chown (mountpoint (snd device)) (g_uid s1) (g_gid s1), c) \<in> set [mk, (mcall, m)]))"
        unfolding mcall_def mp_def by blast
    qed
  next
    case chown_failed
    with res new mount ids have "device_unmount os dev s4 \<bind> (\<lambda>(_, s5). Some (0, s5)) = Some (r, s')"
      by (simp add: device_mount_def Let_def mp_def [symmetric] quirks_def [symmetric]
          mcall_def [symmetric] ccall_def [symmetric])
    then obtain r' where um: "device_unmount os dev s4 = Some (r', s')" and r: "r = 0"
      by (auto split: bind_splits)
    show ?thesis
    proof (rule disjI2, intro conjI exI)
      show "r = 0" by (rule r)
      show "globals s4 = globals s1" by (rule g4)
      show "trace s4 = trace s1 @ [mk, (mcall, m), (ccall, c)]" by (rule t4)
      show "device_unmount os dev s4 = Some (r', s')" by (rule um)
      have "(ccall, c) \<in> set [mk, (mcall, m), (ccall, c)]" by simp
      with chown_failed
      show "(\<exists>opts ro m'. m' \<noteq> 0 \<and>
                 (Mount (filesystem (snd device)) (devnode (snd device)) (mountpoint (snd device)) opts ro, m')
                   \<in> set [mk, (mcall, m), (ccall, c)]) \<or>
              (filesystem_quirks (filesystem (snd device)) AND QUIRK_OWNER_FIX = 0 \<and>
               (\<exists>c'. c' \<noteq> 0 \<and> (Chown (mountpoint (snd device)) (g_uid s1) (g_gid s1), c')
                   \<in> set [mk, (mcall, m), (ccall, c)]))"
        unfolding ccall_def mp_def quirks_def by blast
    qed
  next
    case chown_done
    with res new mount ids have "r = 1 \<and>
        s' = s4\<lparr>trace := trace s4 @ [(Spawn_helper None ''mount'' mp, 0)]\<rparr>"
      by (auto simp add: device_mount_def Let_def mp_def [symmetric] quirks_def [symmetric]
          mcall_def [symmetric] ccall_def [symmetric] spawn_helper_def CALLBACK_PATH_def)
    with g4 t4 show ?thesis by (auto simp: globals_def)
  next
    case no_chown
    with res new mount ids have "r = 1 \<and>
        s' = s3\<lparr>trace := trace s3 @ [(Spawn_helper None ''mount'' mp, 0)]\<rparr>"
      by (auto simp add: device_mount_def Let_def mp_def [symmetric] quirks_def [symmetric]
          mcall_def [symmetric] spawn_helper_def CALLBACK_PATH_def)
    with g3 t3 show ?thesis by (auto simp: globals_def)
  qed
qed





section \<open>Uniqueness of device paths\<close>

lemma slots_distinct_iff:
  "slots_distinct f g =
     (\<forall>i j a b. i < MAX_DEVICES \<longrightarrow> j < MAX_DEVICES \<longrightarrow> g ! i = Some a \<longrightarrow> g ! j = Some b \<longrightarrow>
        i \<noteq> j \<longrightarrow> f a \<noteq> f b)"
proof
  assume sd: "slots_distinct f g"
  show "\<forall>i j a b. i < MAX_DEVICES \<longrightarrow> j < MAX_DEVICES \<longrightarrow> g ! i = Some a \<longrightarrow> g ! j = Some b \<longrightarrow>
        i \<noteq> j \<longrightarrow> f a \<noteq> f b"
  proof (intro allI impI)
    fix i j a b
    assume "i < MAX_DEVICES" "j < MAX_DEVICES" and ab: "g ! i = Some a" "g ! j = Some b" and ne: "i \<noteq> j"
    then have "i \<in> {..<MAX_DEVICES}" "j \<in> {..<MAX_DEVICES}" by simp_all
    with sd have "case (g ! i, g ! j) of (Some a, Some b) \<Rightarrow> i = j \<or> f a \<noteq> f b | _ \<Rightarrow> True"
      unfolding slots_distinct_def by blast
    with ab ne show "f a \<noteq> f b" by simp
  qed
next
  assume all: "\<forall>i j a b. i < MAX_DEVICES \<longrightarrow> j < MAX_DEVICES \<longrightarrow> g ! i = Some a \<longrightarrow> g ! j = Some b \<longrightarrow>
        i \<noteq> j \<longrightarrow> f a \<noteq> f b"
  show "slots_distinct f g"
    unfolding slots_distinct_def
  proof (intro ballI)
    fix i j assume "i \<in> {..<MAX_DEVICES}" "j \<in> {..<MAX_DEVICES}"
    then have ij: "i < MAX_DEVICES" "j < MAX_DEVICES" by simp_all
    show "case (g ! i, g ! j) of (Some a, Some b) \<Rightarrow> i = j \<or> f a \<noteq> f b | _ \<Rightarrow> True"
    proof (cases "g ! i")
      case None
      then show ?thesis by simp
    next
      case a: (Some a)
      show ?thesis
      proof (cases "g ! j")
        case None
        with a show ?thesis by simp
      next
        case b: (Some b)
        show ?thesis
        proof (cases "i = j")
          case True
          with a b show ?thesis by simp
        next
          case False
          with all ij a b have "f a \<noteq> f b" by blast
          with a b show ?thesis by simp
        qed
      qed
    qed
  qed
qed

lemma path_registered_iff:
  "path_registered p g = (\<exists>i d. i < MAX_DEVICES \<and> g ! i = Some d \<and> devnode (snd d) = p)"
proof
  assume "path_registered p g"
  then obtain i where i: "i < MAX_DEVICES" "case g ! i of Some d \<Rightarrow> devnode (snd d) = p | None \<Rightarrow> False"
    unfolding path_registered_def by auto
  then obtain d where "g ! i = Some d" "devnode (snd d) = p" by (cases "g ! i") simp_all
  with i(1) show "\<exists>i d. i < MAX_DEVICES \<and> g ! i = Some d \<and> devnode (snd d) = p" by blast
next
  assume "\<exists>i d. i < MAX_DEVICES \<and> g ! i = Some d \<and> devnode (snd d) = p"
  then obtain i d where "i < MAX_DEVICES" "g ! i = Some d" "devnode (snd d) = p" by blast
  then have "i \<in> {..<MAX_DEVICES}" "case g ! i of Some d \<Rightarrow> devnode (snd d) = p | None \<Rightarrow> False"
    by simp_all
  then show "path_registered p g" unfolding path_registered_def by blast
qed

lemma nth_update_None:
  "(g[k := None]) ! i = Some d \<Longrightarrow> g ! i = Some d \<and> (i \<noteq> k \<or> length g \<le> k)"
  by (cases "i = k"; cases "k < length g") (simp_all add: list_update_beyond)

lemma slots_distinct_clear: "slots_distinct f g \<Longrightarrow> slots_distinct f (g[k := None])"
  unfolding slots_distinct_iff by (blast dest: nth_update_None)

lemma path_registered_clear: "path_registered p (g[k := None]) \<Longrightarrow> path_registered p g"
  unfolding path_registered_iff by (blast dest: nth_update_None)

lemma registry_invariant_clear: "registry_invariant g \<Longrightarrow> registry_invariant (g[k := None])"
  by (simp add: registry_invariant_def registry_array_def unique_addresses_def
      unique_device_paths_def slots_distinct_clear)

lemma registry_invariant_destroy: "registry_invariant g \<Longrightarrow> registry_invariant (device_destroy a g)"
  using device_destroy_cases [of a g] by (auto simp: registry_invariant_clear)

lemma path_registered_destroy: "path_registered p (device_destroy a g) \<Longrightarrow> path_registered p g"
  using device_destroy_cases [of a g] by (auto dest: path_registered_clear)

lemma slots_distinct_add:
  assumes "slots_distinct f g" and "\<And>i d. i < MAX_DEVICES \<Longrightarrow> g ! i = Some d \<Longrightarrow> f d \<noteq> f device"
  shows "slots_distinct f (g[k := Some device])"
  unfolding slots_distinct_iff
proof (intro allI impI)
  fix i j a b
  assume i: "i < MAX_DEVICES" and j: "j < MAX_DEVICES"
    and a: "g[k := Some device] ! i = Some a" and b: "g[k := Some device] ! j = Some b" and ne: "i \<noteq> j"
  have old: "g ! n = Some d \<or> d = device" if "g[k := Some device] ! n = Some d" for n d
    using that by (cases "n = k"; cases "k < length g") (simp_all add: list_update_beyond)
  have at_k: "n = k" if "g[k := Some device] ! n = Some d" "g ! n \<noteq> Some d" for n d
    using that by (cases "n = k") simp_all
  show "f a \<noteq> f b"
  proof (cases "g ! i = Some a")
    case ia: True
    show ?thesis
    proof (cases "g ! j = Some b")
      case True
      with ia assms(1) i j ne show ?thesis unfolding slots_distinct_iff by blast
    next
      case False
      with b old have "b = device" by blast
      with ia assms(2) [OF i] show ?thesis by simp
    qed
  next
    case nia: False
    with a old have ad: "a = device" by blast
    from a nia have ik: "i = k" by (rule at_k)
    with ne have "j \<noteq> k" by simp
    with b have "g ! j = Some b" by simp
    with assms(2) [OF j] ad show ?thesis by fastforce
  qed
qed

lemma registry_invariant_add:
  assumes inv: "registry_invariant g" and a: "fst device = calloc_address g"
    and p: "\<not> path_registered (devnode (snd device)) g"
  shows "registry_invariant (g[k := Some device])"
proof -
  from inv have arr: "registry_array g" and ua: "unique_addresses g" and up: "unique_device_paths g"
    by (simp_all add: registry_invariant_def)
  have "unique_addresses (g[k := Some device])"
    unfolding unique_addresses_def
  proof (rule slots_distinct_add)
    show "slots_distinct fst g" using ua by (simp add: unique_addresses_def)
    fix i d assume "i < MAX_DEVICES" "g ! i = Some d"
    with arr calloc_address_fresh [of i g] a show "fst d \<noteq> fst device"
      by (auto simp: registry_array_def)
  qed
  moreover have "unique_device_paths (g[k := Some device])"
    unfolding unique_device_paths_def
  proof (rule slots_distinct_add)
    show "slots_distinct (\<lambda>d. devnode (snd d)) g" using up by (simp add: unique_device_paths_def)
    fix i d assume "i < MAX_DEVICES" "g ! i = Some d"
    with p show "devnode (snd d) \<noteq> devnode (snd device)" unfolding path_registered_iff by blast
  qed
  ultimately show ?thesis using arr by (simp add: registry_invariant_def registry_array_def)
qed

lemma destroy_found_record:
  assumes inv: "registry_invariant g" and found: "device_search (Some p) g = Some d"
    and dp: "devnode (snd d) = p"
  shows "\<not> path_registered p (device_destroy (fst d) g)"
proof -
  from found have "device_search_loop 0 p g = Some d" by (simp add: device_search_def)
  from search_loop_Some [OF this] obtain k where k: "k < MAX_DEVICES" "g ! k = Some d" by blast
  from inv have ua: "slots_distinct fst g" and up: "slots_distinct (\<lambda>d. devnode (snd d)) g"
    by (simp_all add: registry_invariant_def unique_addresses_def unique_device_paths_def)
  have "device_destroy_loop 0 (fst d) g = k"
  proof (rule destroy_loop_first)
    show "map_option fst (g ! k) = Some (fst d)" using k by simp
    fix i assume "i < k"
    show "map_option fst (g ! i) \<noteq> Some (fst d)"
    proof
      assume "map_option fst (g ! i) = Some (fst d)"
      then obtain e where "g ! i = Some e" "fst e = fst d" by auto
      with ua k \<open>i < k\<close> show False unfolding slots_distinct_iff
        by (metis less_trans nat_neq_iff)
    qed
  qed (use k in simp_all)
  with k have eq: "device_destroy (fst d) g = g[k := None]" by (simp add: device_destroy_def)
  show ?thesis
  proof
    assume "path_registered p (device_destroy (fst d) g)"
    then obtain i e where i: "i < MAX_DEVICES" "g[k := None] ! i = Some e" "devnode (snd e) = p"
      unfolding eq path_registered_iff by blast
    from i(2) have ne: "i \<noteq> k \<or> length g \<le> k" and gi: "g ! i = Some e"
      using nth_update_None [of g k i e] by simp_all
    from inv k have "k < length g" by (simp add: registry_invariant_def registry_array_def)
    with ne have "i \<noteq> k" by simp
    with up i(1,3) gi k dp show False unfolding slots_distinct_iff by blast
  qed
qed

lemma device_unmount_registry:
  assumes "device_unmount os dev s = Some (r, s')"
  shows "(g_devices s' = g_devices s \<or>
          (\<exists>d. device_search (udev_devnode dev) (g_devices s) = Some d \<and> r = 1 \<and>
             g_devices s' = device_destroy (fst d) (g_devices s))) \<and>
         g_fstab s' = g_fstab s \<and> g_mtab s' = g_mtab s \<and> g_uid s' = g_uid s \<and> g_gid s' = g_gid s"
proof (cases "device_search (udev_devnode dev) (g_devices s)")
  case None
  with assms device_unmount_absent [OF None, of os] show ?thesis by simp
next
  case (Some d)
  from device_unmount_cases [OF Some assms]
  have "globals s' = globals s \<or>
        (r = 1 \<and> g_devices s' = device_destroy (fst d) (g_devices s) \<and> g_fstab s' = g_fstab s \<and>
         g_mtab s' = g_mtab s \<and> g_uid s' = g_uid s \<and> g_gid s' = g_gid s)"
    by (auto simp: globals_def)
  with Some show ?thesis by (auto simp: globals_def)
qed

lemma device_unmount_invariant:
  assumes "registry_invariant (g_devices s)" and "device_unmount os dev s = Some (r, s')"
  shows "registry_invariant (g_devices s') \<and> g_fstab s' = g_fstab s \<and> g_mtab s' = g_mtab s \<and>
         (\<forall>p. path_registered p (g_devices s') \<longrightarrow> path_registered p (g_devices s))"
  using device_unmount_registry [OF assms(2)] assms(1)
  by (auto simp: registry_invariant_destroy dest: path_registered_destroy)

lemma device_new_invariant:
  assumes inv: "registry_invariant (g_devices s)" and new: "device_new os dev s = Some (r, s')"
    and fresh: "\<not> known_path dev s"
  shows "registry_invariant (g_devices s') \<and> g_fstab s' = g_fstab s \<and> g_mtab s' = g_mtab s"
proof -
  from inv have arr: "registry_array (g_devices s)" by (simp add: registry_invariant_def)
  from device_new_result [OF new arr] show ?thesis
  proof (elim disjE exE conjE)
    assume "globals s' = globals s"
    with inv show ?thesis by (simp add: globals_def)
  next
    fix device k
    assume g': "g_devices s' = (g_devices s)[k := Some device]"
      and t: "g_fstab s' = g_fstab s" "g_mtab s' = g_mtab s"
      and a: "fst device = calloc_address (g_devices s)"
      and p: "udev_devnode dev = Some (devnode (snd device))"
    from fresh p have "\<not> path_registered (devnode (snd device)) (g_devices s)"
      by (simp add: known_path_def)
    with inv a have "registry_invariant ((g_devices s)[k := Some device])"
      by (rule registry_invariant_add)
    with g' t show ?thesis by simp
  qed
qed

lemma device_mount_invariant:
  assumes inv: "registry_invariant (g_devices s)" and res: "device_mount os dev s = Some (r, s')"
    and fresh: "\<not> known_path dev s"
  shows "registry_invariant (g_devices s') \<and> g_fstab s' = g_fstab s \<and> g_mtab s' = g_mtab s"
proof -
  from res obtain new s1 where new: "device_new os dev s = Some (new, s1)"
    by (cases "device_new os dev s") (auto simp: device_mount_def)
  from device_new_invariant [OF inv new fresh]
  have inv1: "registry_invariant (g_devices s1)" and t1: "g_fstab s1 = g_fstab s" "g_mtab s1 = g_mtab s"
    by simp_all
  show ?thesis
  proof (cases new)
    case None
    with res new have "s' = s1" by (simp add: device_mount_def)
    with inv1 t1 show ?thesis by simp
  next
    case (Some device)
    with new have new': "device_new os dev s = Some (Some device, s1)" by simp
    from device_mount_after_new [OF new' res]
    have "globals s' = globals s1 \<or>
          (\<exists>s3 r'. globals s3 = globals s1 \<and> device_unmount os dev s3 = Some (r', s'))"
      by blast
    then show ?thesis
    proof (elim disjE exE conjE)
      assume "globals s' = globals s1"
      with inv1 t1 show ?thesis by (simp add: globals_def)
    next
      fix s3 r'
      assume g3: "globals s3 = globals s1" and um: "device_unmount os dev s3 = Some (r', s')"
      from g3 inv1 have "registry_invariant (g_devices s3)" by (simp add: globals_def)
      from device_unmount_invariant [OF this um] g3 t1 show ?thesis by (simp add: globals_def)
    qed
  qed
qed

lemma known_path_after_removal:
  assumes "\<forall>p. path_registered p (g_devices s') \<longrightarrow> path_registered p (g_devices s)"
    and "\<not> known_path dev s"
  shows "\<not> known_path dev s'"
  using assms by (auto simp: known_path_def split: option.splits)

lemma device_change_invariant:
  assumes inv: "registry_invariant (g_devices s)" and res: "device_change os dev s = Some (r, s')"
    and ok: "\<not> (known_path dev s \<and> \<not> replaces_record dev s)"
  shows "registry_invariant (g_devices s')"
proof -
  have mount_after: "registry_invariant (g_devices s')"
    if "registry_invariant (g_devices s1)" "\<not> known_path dev s1"
      "device_mount os dev s1 \<bind> (\<lambda>(r, s2). Some (if r = 0 then 0 else 1, s2)) = Some (r, s')" for s1
  proof -
    from that(3) obtain r2 where "device_mount os dev s1 = Some (r2, s')"
      by (auto split: bind_splits)
    from device_mount_invariant [OF that(1) this that(2)] show ?thesis by simp
  qed
  show ?thesis
  proof (cases "device_search (udev_devnode dev) (g_devices s)")
    case None
    then have "\<not> replaces_record dev s" by (simp add: replaces_record_def)
    with ok have fresh: "\<not> known_path dev s" by simp
    from res None have "device_mount os dev s \<bind> (\<lambda>(r, s2). Some (if r = 0 then 0 else 1, s2)) = Some (r, s')"
      by (simp add: device_change_def)
    with inv fresh show ?thesis by (rule mount_after)
  next
    case (Some d)
    with res obtain m where m: "device_is_mounted s dev = Some m"
      by (cases "device_is_mounted s dev") (auto simp: device_change_def)
    show ?thesis
    proof (cases m)
      case False
      with m Some have "\<not> replaces_record dev s" by (simp add: replaces_record_def)
      with ok have fresh: "\<not> known_path dev s" by simp
      from res Some m False
      have "device_mount os dev s \<bind> (\<lambda>(r, s2). Some (if r = 0 then 0 else 1, s2)) = Some (r, s')"
        by (simp add: device_change_def)
      with inv fresh show ?thesis by (rule mount_after)
    next
      case True
      with res Some m obtain r1 s1 where um: "device_unmount os dev s = Some (r1, s1)"
        by (cases "device_unmount os dev s") (auto simp: device_change_def)
      from device_unmount_invariant [OF inv um]
      have inv1: "registry_invariant (g_devices s1)"
        and mono: "\<forall>p. path_registered p (g_devices s1) \<longrightarrow> path_registered p (g_devices s)"
        by simp_all
      show ?thesis
      proof (cases "r1 = 0")
        case z: True
        with res Some m True um have "s' = s1" by (simp add: device_change_def)
        with inv1 show ?thesis by simp
      next
        case nz: False
        with res Some m True um
        have rest: "device_mount os dev s1 \<bind> (\<lambda>(r, s2). Some (if r = 0 then 0 else 1, s2)) = Some (r, s')"
          by (simp add: device_change_def)
        have fresh1: "\<not> known_path dev s1"
        proof (cases "known_path dev s")
          case False
          with mono show ?thesis by (rule known_path_after_removal)
        next
          case True
          with ok have "replaces_record dev s" by simp
          with Some have p: "udev_devnode dev = Some (devnode (snd d))" by (simp add: replaces_record_def)
          from device_unmount_registry [OF um] nz Some
          have "g_devices s1 = g_devices s \<and> r1 = 0 \<or> g_devices s1 = device_destroy (fst d) (g_devices s)"
            using device_unmount_cases [OF Some um] by auto
          with nz have g1: "g_devices s1 = device_destroy (fst d) (g_devices s)" by simp
          from Some p have "device_search (Some (devnode (snd d))) (g_devices s) = Some d" by simp
          with inv have "\<not> path_registered (devnode (snd d)) (device_destroy (fst d) (g_devices s))"
            by (rule destroy_found_record) simp
          with g1 p show ?thesis by (simp add: known_path_def)
        qed
        from inv1 fresh1 rest show ?thesis by (rule mount_after)
      qed
    qed
  qed
qed

lemma handle_ipc_event_state:
  assumes "handle_ipc_event os msg s = Some s'"
  shows "s' = s \<or> (\<exists>dev r. device_unmount os dev s = Some (r, s'))"
proof (cases msg)
  case Nil
  with assms show ?thesis by (simp add: handle_ipc_event_def)
next
  case (Cons c rest)
  show ?thesis
  proof (cases "c = CHR ''R''")
    case False
    with assms Cons show ?thesis by (simp add: handle_ipc_event_def)
  next
    case True
    define key where "key = tl (if last msg = CHR ''/'' then butlast msg else msg)"
    from assms Cons True have eq: "(case device_search (Some key) (g_devices s) of
        None \<Rightarrow> Some s
      | Some device \<Rightarrow>
          device_is_mounted s (udev (snd device)) \<bind>
            (\<lambda>mounted. if mounted
               then device_unmount os (udev (snd device)) s \<bind> (\<lambda>(_, s1). Some s1)
               else Some s)) = Some s'"
      unfolding handle_ipc_event_def Let_def key_def by simp
    show ?thesis
    proof (cases "device_search (Some key) (g_devices s)")
      case None
      with eq show ?thesis by simp
    next
      case (Some device)
      with eq obtain m where m: "device_is_mounted s (udev (snd device)) = Some m"
        by (cases "device_is_mounted s (udev (snd device))") auto
      show ?thesis
      proof (cases m)
        case False
        with eq Some m show ?thesis by simp
      next
        case True
        with eq Some m have "device_unmount os (udev (snd device)) s \<bind> (\<lambda>(_, s1). Some s1) = Some s'"
          by simp
        then obtain r where "device_unmount os (udev (snd device)) s = Some (r, s')"
          by (auto split: bind_splits)
        then show ?thesis by blast
      qed
    qed
  qed
qed

lemma check_registered_devices_loop_invariant:
  "check_registered_devices_loop os j s = Some s' \<Longrightarrow> registry_invariant (g_devices s) \<Longrightarrow>
   registry_invariant (g_devices s')"
proof (induction os j s rule: check_registered_devices_loop.induct)
  case (1 os j s)
  show ?case
  proof (cases "j < MAX_DEVICES")
    case False
    with "1.prems" show ?thesis by (simp add: check_registered_devices_loop.simps [of os j s])
  next
    case jm: True
    show ?thesis
    proof (cases "g_devices s ! j")
      case None
      with jm "1.prems"(1) have "check_registered_devices_loop os (j + 1) s = Some s'"
        by (simp add: check_registered_devices_loop.simps [of os j s])
      with "1.IH"(1) [OF jm None] "1.prems"(2) show ?thesis by simp
    next
      case (Some d)
      with jm "1.prems"(1) obtain m where m: "device_is_mounted s (udev (snd d)) = Some m"
        by (cases "device_is_mounted s (udev (snd d))")
          (auto simp: check_registered_devices_loop.simps [of os j s])
      show ?thesis
      proof (cases m)
        case True
        with jm Some m "1.prems"(1) have "check_registered_devices_loop os (j + 1) s = Some s'"
          by (simp add: check_registered_devices_loop.simps [of os j s])
        with "1.IH"(3) [OF jm Some m] True "1.prems"(2) show ?thesis by simp
      next
        case False
        with jm Some m "1.prems"(1) obtain r s1 where
          um: "device_unmount os (udev (snd d)) s = Some (r, s1)"
          and rest: "check_registered_devices_loop os (j + 1) s1 = Some s'"
          by (cases "device_unmount os (udev (snd d)) s")
            (auto simp: check_registered_devices_loop.simps [of os j s])
        from device_unmount_invariant [OF "1.prems"(2) um]
        have "registry_invariant (g_devices s1)" by simp
        with "1.IH"(2) [OF jm Some m False um refl rest] show ?thesis by simp
      qed
    qed
  qed
qed

lemma run_change_sdc1:
  "run os_ok (Change_device sdc1) state_sdc1_mounted =
     Some (state_sdc1_mounted\<lparr>g_devices := empty_registry[0 := Some (1, snd sdc1_record)],
       trace := [(Umount ''/dev/sdc1'', 0), (Rmdir ''/mnt/My_Disk'', 0),
         (Spawn_helper None ''unmount'' ''/mnt/My_Disk'', 0),
         (Calloc, 1), (Stat ''/mnt/My_Disk'', -1), (Mkdir ''/mnt/My_Disk'' 755, 0),
         (Mount ''vfat'' ''/dev/sdc1'' ''/mnt/My_Disk'' ''uid=1000,gid=100,utf8,flush,dmask=000,fmask=111,'' False, 0),
         (Spawn_helper None ''mount'' ''/mnt/My_Disk'', 0)]\<rparr>)"
  by code_simp

lemma run_mount_once: "run os_ok (Mount_device sdb1) boot_state = Some mounted_once"
  by code_simp

lemma run_mount_twice: "run os_ok (Mount_device sdb1) mounted_once = Some mounted_twice"
  by code_simp

lemma slots_distinct_single: "slots_distinct f (empty_registry[k := Some d])"
proof -
  have one: "i = k" if "empty_registry[k := Some d] ! i = Some e" "i < MAX_DEVICES" for i e
    using that by (cases "i = k") (simp_all add: empty_registry_def)
  show ?thesis unfolding slots_distinct_iff using one by blast
qed

lemma single_record_invariant: "registry_invariant (empty_registry[k := Some d])"
  by (simp add: registry_invariant_def unique_addresses_def unique_device_paths_def
      registry_array_def slots_distinct_single) (simp add: empty_registry_def)

lemma empty_registry_invariant: "registry_invariant empty_registry"
proof -
  have "empty_registry ! 0 = None" by (simp add: empty_registry_def MAX_DEVICES_def)
  then have "empty_registry[0 := None] = empty_registry" by (metis list_update_id)
  moreover have "registry_invariant ((empty_registry[0 := Some sdb1_first])[0 := None])"
    by (rule registry_invariant_clear [OF single_record_invariant])
  ultimately show ?thesis by simp
qed

lemma replaces_sdc1: "replaces_record sdc1 state_sdc1_mounted"
  using state_sdc1_mounted_facts(1,2,4)
  by (simp add: replaces_record_def sdc1_def)

lemma mounted_twice_slots:
  "g_devices mounted_twice ! 0 = Some sdb1_first" "g_devices mounted_twice ! 1 = Some sdb1_second"
  "devnode (snd sdb1_first) = devnode (snd sdb1_second)"
  by (simp_all add: mounted_twice_def mounted_once_def empty_registry_def MAX_DEVICES_def
      sdb1_first_def sdb1_second_def)

lemma mounted_twice_not_unique: "\<not> unique_device_paths (g_devices mounted_twice)"
proof
  assume "unique_device_paths (g_devices mounted_twice)"
  then have "devnode (snd sdb1_first) \<noteq> devnode (snd sdb1_second)"
    unfolding unique_device_paths_def slots_distinct_iff
    using mounted_twice_slots(1,2) by (metis MAX_DEVICES_def zero_neq_one zero_less_numeral one_less_numeral_iff semiring_norm(76))
  with mounted_twice_slots(3) show False by simp
qed

text \<open>
  Claim C2, as amended. The registry is an array of \<open>MAX_DEVICES\<close> slots in which no
  struct is registered twice and no two records have the same device path. Every
  operation that returns keeps it so, unless it goes on to create a record for a device
  path that is registered already: create and mount on a device whose path is
  registered, and change on such a device unless the record that \<^verbatim>\<open>device_search\<close>
  finds is the one with that path and the mtab snapshot shows the device mounted.
  Unmount, reconcile and the remove command always keep it.
\<close>

theorem operations_keep_device_paths_unique:
  assumes "registry_invariant (g_devices s)" and "\<not> adds_known_path op s"
    and "run os op s = Some s'"
  shows "unique_device_paths (g_devices s') \<and> registry_invariant (g_devices s')"
proof -
  have "registry_invariant (g_devices s')"
  proof (cases op)
    case (Create dev)
    with assms(3) obtain r where "device_new os dev s = Some (r, s')" by auto
    from device_new_invariant [OF assms(1) this] assms(2) Create show ?thesis by simp
  next
    case (Mount_device dev)
    with assms(3) obtain r where "device_mount os dev s = Some (r, s')" by auto
    from device_mount_invariant [OF assms(1) this] assms(2) Mount_device show ?thesis by simp
  next
    case (Unmount_device dev)
    with assms(3) obtain r where "device_unmount os dev s = Some (r, s')" by auto
    from device_unmount_invariant [OF assms(1) this] show ?thesis by simp
  next
    case (Change_device dev)
    with assms(3) obtain r where "device_change os dev s = Some (r, s')" by auto
    from device_change_invariant [OF assms(1) this] assms(2) Change_device show ?thesis by simp
  next
    case Reconcile
    with assms(3) have "check_registered_devices_loop os 0 s = Some s'"
      by (simp add: check_registered_devices_def)
    from check_registered_devices_loop_invariant [OF this assms(1)] show ?thesis .
  next
    case (Remove_command path)
    with assms(3) have "handle_ipc_event os (CHR ''R'' # path) s = Some s'" by simp
    from handle_ipc_event_state [OF this] show ?thesis
    proof
      assume "s' = s"
      with assms(1) show ?thesis by simp
    next
      assume "\<exists>dev r. device_unmount os dev s = Some (r, s')"
      then obtain dev r where "device_unmount os dev s = Some (r, s')" by blast
      from device_unmount_invariant [OF assms(1) this] show ?thesis by simp
    qed
  qed
  then show ?thesis by (simp add: registry_invariant_def)
qed

lemma change_sdc1_facts:
  "registry_invariant (g_devices state_sdc1_mounted)"
  "\<not> adds_known_path (Change_device sdc1) state_sdc1_mounted"
proof -
  have "g_devices state_sdc1_mounted = empty_registry[0 := Some sdc1_record]"
    by (simp add: state_sdc1_mounted_def state_sdc1_def boot_state_def)
  then show "registry_invariant (g_devices state_sdc1_mounted)"
    by (simp add: single_record_invariant)
  show "\<not> adds_known_path (Change_device sdc1) state_sdc1_mounted"
    using replaces_sdc1 by simp
qed

theorem operations_keep_device_paths_unique_witness:
  "registry_invariant (g_devices state_sdc1_mounted) \<and>
   \<not> adds_known_path (Change_device sdc1) state_sdc1_mounted \<and>
   run os_ok (Change_device sdc1) state_sdc1_mounted =
     Some (state_sdc1_mounted\<lparr>g_devices := empty_registry[0 := Some (1, snd sdc1_record)],
       trace := [(Umount ''/dev/sdc1'', 0), (Rmdir ''/mnt/My_Disk'', 0),
         (Spawn_helper None ''unmount'' ''/mnt/My_Disk'', 0),
         (Calloc, 1), (Stat ''/mnt/My_Disk'', -1), (Mkdir ''/mnt/My_Disk'' 755, 0),
         (Mount ''vfat'' ''/dev/sdc1'' ''/mnt/My_Disk'' ''uid=1000,gid=100,utf8,flush,dmask=000,fmask=111,'' False, 0),
         (Spawn_helper None ''mount'' ''/mnt/My_Disk'', 0)]\<rparr>) \<and>
   unique_device_paths (empty_registry[0 := Some (1, snd sdc1_record)])"
  using operations_keep_device_paths_unique [OF change_sdc1_facts run_change_sdc1]
    change_sdc1_facts run_change_sdc1
  by simp

text \<open>
  Claim C2 as stated fails. From the empty registry, two add events for \<^verbatim>\<open>/dev/sdb1\<close>,
  both mounts succeeding (the second on \<^verbatim>\<open>/mnt/DATA_\<close>, since \<^verbatim>\<open>/mnt/DATA\<close> exists by
  then), leave two records with the device path \<^verbatim>\<open>/dev/sdb1\<close> in the registry.
\<close>

theorem second_add_event_counterexample:
  "unique_device_paths (g_devices boot_state) \<and>
   run os_ok (Mount_device sdb1) boot_state = Some mounted_once \<and>
   run os_ok (Mount_device sdb1) mounted_once = Some mounted_twice \<and>
   g_devices mounted_twice ! 0 = Some sdb1_first \<and>
   g_devices mounted_twice ! 1 = Some sdb1_second \<and>
   devnode (snd sdb1_first) = devnode (snd sdb1_second) \<and>
   \<not> unique_device_paths (g_devices mounted_twice)"
proof -
  have "g_devices boot_state = empty_registry" by (simp add: boot_state_def)
  with empty_registry_invariant have "unique_device_paths (g_devices boot_state)"
    by (simp add: registry_invariant_def)
  with run_mount_once run_mount_twice mounted_twice_slots mounted_twice_not_unique
  show ?thesis by simp
qed

section \<open>Records as the operations build them\<close>

lemma records_sound_iff:
  "records_sound g =
     (registry_array g \<and> slots_distinct fst g \<and>
      (\<forall>i d. i < MAX_DEVICES \<longrightarrow> g ! i = Some d \<longrightarrow>
         udev_devnode (udev (snd d)) = Some (devnode (snd d))))"
proof -
  have "(\<forall>i\<in>{..<MAX_DEVICES}.
           case g ! i of None \<Rightarrow> True
           | Some d \<Rightarrow> udev_devnode (udev (snd d)) = Some (devnode (snd d))) =
        (\<forall>i d. i < MAX_DEVICES \<longrightarrow> g ! i = Some d \<longrightarrow>
           udev_devnode (udev (snd d)) = Some (devnode (snd d)))"
    by (auto split: option.splits)
  then show ?thesis by (simp add: records_sound_def unique_addresses_def)
qed

lemma records_sound_clear: "records_sound g \<Longrightarrow> records_sound (g[k := None])"
  unfolding records_sound_iff
  by (auto simp: registry_array_def slots_distinct_clear dest: nth_update_None)

lemma records_sound_destroy: "records_sound g \<Longrightarrow> records_sound (device_destroy a g)"
  using device_destroy_cases [of a g] by (auto simp: records_sound_clear)

lemma records_sound_add:
  assumes snd: "records_sound g" and a: "fst device = calloc_address g"
    and p: "udev_devnode (udev (snd device)) = Some (devnode (snd device))"
  shows "records_sound (g[k := Some device])"
proof -
  from snd have arr: "registry_array g" and ua: "slots_distinct fst g"
    and nodes: "\<And>i d. i < MAX_DEVICES \<Longrightarrow> g ! i = Some d \<Longrightarrow>
        udev_devnode (udev (snd d)) = Some (devnode (snd d))"
    unfolding records_sound_iff by blast+
  have "slots_distinct fst (g[k := Some device])"
  proof (rule slots_distinct_add [OF ua])
    fix i d assume "i < MAX_DEVICES" "g ! i = Some d"
    with arr calloc_address_fresh [of i g] a show "fst d \<noteq> fst device"
      by (auto simp: registry_array_def)
  qed
  moreover have "udev_devnode (udev (snd d)) = Some (devnode (snd d))"
    if "i < MAX_DEVICES" "g[k := Some device] ! i = Some d" for i d
  proof (cases "i = k \<and> k < length g")
    case True
    with that(2) have "d = device" by simp
    with p show ?thesis by simp
  next
    case False
    with that(2) have "g ! i = Some d" by (cases "i = k") (simp_all add: list_update_beyond)
    with that(1) show ?thesis by (rule nodes)
  qed
  ultimately show ?thesis using arr unfolding records_sound_iff by (simp add: registry_array_def)
qed

lemma device_unmount_sound:
  assumes "records_sound (g_devices s)" and "device_unmount os dev s = Some (r, s')"
  shows "records_sound (g_devices s')"
  using device_unmount_registry [OF assms(2)] assms(1)
  by (auto simp: records_sound_destroy)

lemma device_new_sound:
  assumes snd: "records_sound (g_devices s)" and new: "device_new os dev s = Some (r, s')"
  shows "records_sound (g_devices s')"
proof -
  from snd have arr: "registry_array (g_devices s)" by (simp add: records_sound_def)
  from device_new_result [OF new arr]
  have "globals s' = globals s \<or>
        (\<exists>device k. g_devices s' = (g_devices s)[k := Some device] \<and>
           fst device = calloc_address (g_devices s) \<and>
           udev_devnode (udev (snd device)) = Some (devnode (snd device)))"
    by auto
  then show ?thesis
  proof (elim disjE exE conjE)
    assume "globals s' = globals s"
    with snd show ?thesis by (simp add: globals_def)
  next
    fix device k
    assume g': "g_devices s' = (g_devices s)[k := Some device]"
      and a: "fst device = calloc_address (g_devices s)"
      and p: "udev_devnode (udev (snd device)) = Some (devnode (snd device))"
    from snd a p have "records_sound ((g_devices s)[k := Some device])" by (rule records_sound_add)
    with g' show ?thesis by simp
  qed
qed

lemma device_mount_sound:
  assumes snd: "records_sound (g_devices s)" and res: "device_mount os dev s = Some (r, s')"
  shows "records_sound (g_devices s')"
proof -
  from res obtain new s1 where new: "device_new os dev s = Some (new, s1)"
    by (cases "device_new os dev s") (auto simp: device_mount_def)
  from device_new_sound [OF snd new] have snd1: "records_sound (g_devices s1)" .
  show ?thesis
  proof (cases new)
    case None
    with res new have "s' = s1" by (simp add: device_mount_def)
    with snd1 show ?thesis by simp
  next
    case (Some device)
    with new have new': "device_new os dev s = Some (Some device, s1)" by simp
    from device_mount_after_new [OF new' res]
    have "globals s' = globals s1 \<or>
          (\<exists>s3 r'. globals s3 = globals s1 \<and> device_unmount os dev s3 = Some (r', s'))"
      by blast
    then show ?thesis
    proof (elim disjE exE conjE)
      assume "globals s' = globals s1"
      with snd1 show ?thesis by (simp add: globals_def)
    next
      fix s3 r'
      assume g3: "globals s3 = globals s1" and um: "device_unmount os dev s3 = Some (r', s')"
      from g3 snd1 have "records_sound (g_devices s3)" by (simp add: globals_def)
      from device_unmount_sound [OF this um] show ?thesis .
    qed
  qed
qed

lemma device_change_sound:
  assumes snd: "records_sound (g_devices s)" and res: "device_change os dev s = Some (r, s')"
  shows "records_sound (g_devices s')"
proof -
  from res obtain stop s1 where
    first: "(case device_search (udev_devnode dev) (g_devices s) of
            None \<Rightarrow> Some (False, s)
          | Some device \<Rightarrow>
              device_is_mounted s dev \<bind>
                (\<lambda>mounted. if mounted
                   then device_unmount os dev s \<bind> (\<lambda>(r, s'). Some (r = 0, s'))
                   else Some (False, s))) = Some (stop, s1)"
    and rest: "(if stop then Some (0, s1)
                else device_mount os dev s1 \<bind> (\<lambda>(r, s2). Some (if r = 0 then 0 else 1, s2))) = Some (r, s')"
    unfolding device_change_def by (auto split: bind_splits)
  have "s1 = s \<or> (\<exists>r1. device_unmount os dev s = Some (r1, s1))"
    using first by (auto split: option.splits bind_splits if_splits)
  with snd have snd1: "records_sound (g_devices s1)"
    by (auto dest: device_unmount_sound)
  show ?thesis
  proof (cases stop)
    case True
    with rest snd1 show ?thesis by simp
  next
    case False
    with rest obtain r2 where "device_mount os dev s1 = Some (r2, s')"
      by (auto split: bind_splits)
    from device_mount_sound [OF snd1 this] show ?thesis .
  qed
qed

lemma check_registered_devices_loop_sound:
  "check_registered_devices_loop os j s = Some s' \<Longrightarrow> records_sound (g_devices s) \<Longrightarrow>
   records_sound (g_devices s')"
proof (induction os j s rule: check_registered_devices_loop.induct)
  case (1 os j s)
  show ?case
  proof (cases "j < MAX_DEVICES")
    case False
    with "1.prems" show ?thesis by (simp add: check_registered_devices_loop.simps [of os j s])
  next
    case jm: True
    show ?thesis
    proof (cases "g_devices s ! j")
      case None
      with jm "1.prems"(1) have "check_registered_devices_loop os (j + 1) s = Some s'"
        by (simp add: check_registered_devices_loop.simps [of os j s])
      with "1.IH"(1) [OF jm None] "1.prems"(2) show ?thesis by simp
    next
      case (Some d)
      with jm "1.prems"(1) obtain m where m: "device_is_mounted s (udev (snd d)) = Some m"
        by (cases "device_is_mounted s (udev (snd d))")
          (auto simp: check_registered_devices_loop.simps [of os j s])
      show ?thesis
      proof (cases m)
        case True
        with jm Some m "1.prems"(1) have "check_registered_devices_loop os (j + 1) s = Some s'"
          by (simp add: check_registered_devices_loop.simps [of os j s])
        with "1.IH"(3) [OF jm Some m] True "1.prems"(2) show ?thesis by simp
      next
        case False
        with jm Some m "1.prems"(1) obtain r s1 where
          um: "device_unmount os (udev (snd d)) s = Some (r, s1)"
          and rest: "check_registered_devices_loop os (j + 1) s1 = Some s'"
          by (cases "device_unmount os (udev (snd d)) s")
            (auto simp: check_registered_devices_loop.simps [of os j s])
        from device_unmount_sound [OF "1.prems"(2) um]
        have "records_sound (g_devices s1)" .
        with "1.IH"(2) [OF jm Some m False um refl rest] show ?thesis by simp
      qed
    qed
  qed
qed

lemma operations_keep_records_sound:
  assumes "records_sound (g_devices s)" and "run os op s = Some s'"
  shows "records_sound (g_devices s')"
proof (cases op)
  case (Create dev)
  with assms(2) obtain r where "device_new os dev s = Some (r, s')" by auto
  from device_new_sound [OF assms(1) this] show ?thesis .
next
  case (Mount_device dev)
  with assms(2) obtain r where "device_mount os dev s = Some (r, s')" by auto
  from device_mount_sound [OF assms(1) this] show ?thesis .
next
  case (Unmount_device dev)
  with assms(2) obtain r where "device_unmount os dev s = Some (r, s')" by auto
  from device_unmount_sound [OF assms(1) this] show ?thesis .
next
  case (Change_device dev)
  with assms(2) obtain r where "device_change os dev s = Some (r, s')" by auto
  from device_change_sound [OF assms(1) this] show ?thesis .
next
  case Reconcile
  with assms(2) have "check_registered_devices_loop os 0 s = Some s'"
    by (simp add: check_registered_devices_def)
  from check_registered_devices_loop_sound [OF this assms(1)] show ?thesis .
next
  case (Remove_command path)
  with assms(2) have "handle_ipc_event os (CHR ''R'' # path) s = Some s'" by simp
  from handle_ipc_event_state [OF this] show ?thesis
  proof
    assume "s' = s"
    with assms(1) show ?thesis by simp
  next
    assume "\<exists>dev r. device_unmount os dev s = Some (r, s')"
    then obtain dev r where "device_unmount os dev s = Some (r, s')" by blast
    from device_unmount_sound [OF assms(1) this] show ?thesis .
  qed
qed

lemma empty_registry_sound: "records_sound (g_devices boot_state)"
proof -
  have "g_devices boot_state = empty_registry" by (simp add: boot_state_def)
  moreover have "records_sound empty_registry"
    using empty_registry_invariant
    by (simp add: records_sound_iff registry_invariant_def unique_addresses_def empty_registry_def)
  ultimately show ?thesis by simp
qed

lemma records_sound_slot:
  assumes "records_sound g" and "k < MAX_DEVICES" and "g ! k = Some d"
  shows "unique_addresses g \<and> udev_devnode (udev (snd d)) = Some (devnode (snd d))"
proof -
  from assms(1) have "slots_distinct fst g"
    and "\<And>i e. i < MAX_DEVICES \<Longrightarrow> g ! i = Some e \<Longrightarrow>
        udev_devnode (udev (snd e)) = Some (devnode (snd e))"
    unfolding records_sound_iff by blast+
  with assms(2,3) show ?thesis by (simp add: unique_addresses_def)
qed

section \<open>The remove command\<close>

lemma remove_command_lookup:
  "handle_ipc_event os (CHR ''R'' # path) s =
     (case device_search (Some (remove_key path)) (g_devices s) of
        None \<Rightarrow> Some s
      | Some device \<Rightarrow>
          do {
            mounted \<leftarrow> device_is_mounted s (udev (snd device));
            if mounted then
              do { (_, s1) \<leftarrow> device_unmount os (udev (snd device)) s; Some s1 }
            else Some s
          })"
proof -
  have key: "tl (if last (CHR ''R'' # path) = CHR ''/'' then butlast (CHR ''R'' # path) else CHR ''R'' # path)
      = remove_key path"
    by (cases "path = []") (simp_all add: remove_key_def)
  show ?thesis
    unfolding handle_ipc_event_def Let_def
    by (simp only: list.case simp_thms if_True key)
qed

lemma search_first_slot:
  assumes "k < MAX_DEVICES" and "g ! k = Some d" and "matches p (Some d)"
    and "\<forall>i<k. \<not> matches p (g ! i)"
  shows "device_search (Some p) g = Some d"
proof -
  have "device_search_loop 0 p g = Some d"
    using assms by (intro search_loop_first [of 0 k]) simp_all
  then show ?thesis by (simp add: device_search_def)
qed

lemma search_no_slot:
  assumes "\<forall>i<MAX_DEVICES. \<not> matches p (g ! i)"
  shows "device_search (Some p) g = None"
proof -
  have "device_search_loop 0 p g = None"
    using assms by (intro search_loop_none) simp_all
  then show ?thesis by (simp add: device_search_def)
qed

lemma destroy_registered_slot:
  assumes "k < MAX_DEVICES" and "g ! k = Some d" and "unique_addresses g"
  shows "device_destroy (fst d) g = g[k := None]"
proof -
  from assms(3) have ua: "slots_distinct fst g" by (simp add: unique_addresses_def)
  have "device_destroy_loop 0 (fst d) g = k"
  proof (rule destroy_loop_first)
    show "map_option fst (g ! k) = Some (fst d)" using assms(2) by simp
    fix i assume "i < k"
    show "map_option fst (g ! i) \<noteq> Some (fst d)"
    proof
      assume "map_option fst (g ! i) = Some (fst d)"
      then obtain e where "g ! i = Some e" "fst e = fst d" by auto
      with ua assms(1,2) \<open>i < k\<close> show False unfolding slots_distinct_iff
        by (metis less_trans nat_neq_iff)
    qed
  qed (use assms in simp_all)
  with assms(1) show ?thesis by (simp add: device_destroy_def)
qed

text \<open>
  Claim C7, as amended. The message is \<^verbatim>\<open>R\<close> followed by a path. The key is the
  path with a trailing slash stripped, and the record looked up is the first, in slot
  order, whose device path or mountpoint is the key.

  When no slot holds such a record, the state stays as it is.

  When slot \<open>k\<close> holds the first such record \<open>d\<close> and the mtab snapshot does not
  resolve the device of \<open>d\<close> to an entry, the state stays as it is too: \<open>d\<close> stays
  registered and nothing is called.

  When the snapshot does resolve the device, the udev handle of \<open>d\<close> has the device
  path of \<open>d\<close>, and no record before slot \<open>k\<close> has that device path as its device
  path or mountpoint, then \<^verbatim>\<open>mnt_context_umount\<close> is called once, with the device
  path of \<open>d\<close> as target. If it fails, that call is all that happens and \<open>d\<close>
  stays registered. If it returns 0, and no struct is registered in two slots,
  \<^verbatim>\<open>rmdir\<close> is called on the mountpoint of \<open>d\<close>, \<^verbatim>\<open>spawn_helper\<close> is called
  with the action \<^verbatim>\<open>unmount\<close> and that mountpoint, and slot \<open>k\<close> is cleared; the
  other slots, the tables and the ids stay as they are.

  The two conditions on the records (the udev handle has the record's device path, no
  struct is in two slots) hold in every registry that the operations build from the
  empty one: see \<open>records_sound_slot\<close>, \<open>operations_keep_records_sound\<close> and
  \<open>empty_registry_sound\<close>. The condition on the slots before \<open>k\<close> does not, as
  the second example after the theorem shows.
\<close>

theorem handle_ipc_event_remove:
  "((\<forall>i<MAX_DEVICES. \<not> matches (remove_key path) (g_devices s ! i)) \<longrightarrow>
      handle_ipc_event os (CHR ''R'' # path) s = Some s) \<and>
   (k < MAX_DEVICES \<and> g_devices s ! k = Some d \<and> matches (remove_key path) (Some d) \<and>
    (\<forall>i<k. \<not> matches (remove_key path) (g_devices s ! i)) \<and>
    fstab_search (g_mtab s) (udev (snd d)) = Some entry \<longrightarrow>
      (entry = None \<longrightarrow> handle_ipc_event os (CHR ''R'' # path) s = Some s) \<and>
      (entry \<noteq> None \<and> udev_devnode (udev (snd d)) = Some (devnode (snd d)) \<and>
       (\<forall>i<k. \<not> matches (devnode (snd d)) (g_devices s ! i)) \<longrightarrow>
         (os (trace s) (Umount (devnode (snd d))) \<noteq> 0 \<longrightarrow>
            handle_ipc_event os (CHR ''R'' # path) s =
              Some (s\<lparr>trace := trace s @
                [(Umount (devnode (snd d)), os (trace s) (Umount (devnode (snd d))))]\<rparr>)) \<and>
         (os (trace s) (Umount (devnode (snd d))) = 0 \<and> unique_addresses (g_devices s) \<longrightarrow>
            handle_ipc_event os (CHR ''R'' # path) s =
              Some (s\<lparr>g_devices := (g_devices s)[k := None],
                trace := trace s @
                  [(Umount (devnode (snd d)), 0),
                   (Rmdir (mountpoint (snd d)),
                      os (trace s @ [(Umount (devnode (snd d)), 0)]) (Rmdir (mountpoint (snd d)))),
                   (Spawn_helper CALLBACK_PATH ''unmount'' (mountpoint (snd d)), 0)]\<rparr>))))"
proof (intro conjI impI)
  assume "\<forall>i<MAX_DEVICES. \<not> matches (remove_key path) (g_devices s ! i)"
  then have "device_search (Some (remove_key path)) (g_devices s) = None"
    by (rule search_no_slot)
  then show "handle_ipc_event os (CHR ''R'' # path) s = Some s"
    by (simp add: remove_command_lookup)
next
  assume m: "k < MAX_DEVICES \<and> g_devices s ! k = Some d \<and> matches (remove_key path) (Some d) \<and>
    (\<forall>i<k. \<not> matches (remove_key path) (g_devices s ! i)) \<and>
    fstab_search (g_mtab s) (udev (snd d)) = Some entry"
  then have found: "device_search (Some (remove_key path)) (g_devices s) = Some d"
    by (intro search_first_slot [of k]) simp_all
  assume "entry = None"
  with m have "device_is_mounted s (udev (snd d)) = Some False"
    by (simp add: device_is_mounted_def)
  with found show "handle_ipc_event os (CHR ''R'' # path) s = Some s"
    by (simp add: remove_command_lookup)
next
  assume m: "k < MAX_DEVICES \<and> g_devices s ! k = Some d \<and> matches (remove_key path) (Some d) \<and>
    (\<forall>i<k. \<not> matches (remove_key path) (g_devices s ! i)) \<and>
    fstab_search (g_mtab s) (udev (snd d)) = Some entry"
  assume e: "entry \<noteq> None \<and> udev_devnode (udev (snd d)) = Some (devnode (snd d)) \<and>
       (\<forall>i<k. \<not> matches (devnode (snd d)) (g_devices s ! i))"
  assume r: "os (trace s) (Umount (devnode (snd d))) \<noteq> 0"
  from m have found: "device_search (Some (remove_key path)) (g_devices s) = Some d"
    by (intro search_first_slot [of k]) simp_all
  from m e have mounted: "device_is_mounted s (udev (snd d)) = Some True"
    by (simp add: device_is_mounted_def)
  from m e have "device_search (Some (devnode (snd d))) (g_devices s) = Some d"
    by (intro search_first_slot [of k]) (simp_all add: matches_def)
  with e have again: "device_search (udev_devnode (udev (snd d))) (g_devices s) = Some d" by simp
  from again mounted r
  have "device_unmount os (udev (snd d)) s =
      Some (0, s\<lparr>trace := trace s @ [(Umount (devnode (snd d)), os (trace s) (Umount (devnode (snd d))))]\<rparr>)"
    by (simp add: device_unmount_def do_call_def Let_def)
  with found mounted
  show "handle_ipc_event os (CHR ''R'' # path) s =
      Some (s\<lparr>trace := trace s @ [(Umount (devnode (snd d)), os (trace s) (Umount (devnode (snd d))))]\<rparr>)"
    by (simp add: remove_command_lookup)
next
  assume m: "k < MAX_DEVICES \<and> g_devices s ! k = Some d \<and> matches (remove_key path) (Some d) \<and>
    (\<forall>i<k. \<not> matches (remove_key path) (g_devices s ! i)) \<and>
    fstab_search (g_mtab s) (udev (snd d)) = Some entry"
  assume e: "entry \<noteq> None \<and> udev_devnode (udev (snd d)) = Some (devnode (snd d)) \<and>
       (\<forall>i<k. \<not> matches (devnode (snd d)) (g_devices s ! i))"
  assume r: "os (trace s) (Umount (devnode (snd d))) = 0 \<and> unique_addresses (g_devices s)"
  from m have found: "device_search (Some (remove_key path)) (g_devices s) = Some d"
    by (intro search_first_slot [of k]) simp_all
  from m e have mounted: "device_is_mounted s (udev (snd d)) = Some True"
    by (simp add: device_is_mounted_def)
  from m e have "device_search (Some (devnode (snd d))) (g_devices s) = Some d"
    by (intro search_first_slot [of k]) (simp_all add: matches_def)
  with e have again: "device_search (udev_devnode (udev (snd d))) (g_devices s) = Some d" by simp
  from m r have gone: "device_destroy (fst d) (g_devices s) = (g_devices s)[k := None]"
    by (intro destroy_registered_slot) simp_all
  from again mounted r gone
  have "device_unmount os (udev (snd d)) s =
      Some (1, s\<lparr>g_devices := (g_devices s)[k := None],
                trace := trace s @
                  [(Umount (devnode (snd d)), 0),
                   (Rmdir (mountpoint (snd d)),
                      os (trace s @ [(Umount (devnode (snd d)), 0)]) (Rmdir (mountpoint (snd d)))),
                   (Spawn_helper CALLBACK_PATH ''unmount'' (mountpoint (snd d)), 0)]\<rparr>)"
    by (simp add: device_unmount_def do_call_def spawn_helper_def CALLBACK_PATH_def destroy_def Let_def)
  with found mounted
  show "handle_ipc_event os (CHR ''R'' # path) s =
      Some (s\<lparr>g_devices := (g_devices s)[k := None],
                trace := trace s @
                  [(Umount (devnode (snd d)), 0),
                   (Rmdir (mountpoint (snd d)),
                      os (trace s @ [(Umount (devnode (snd d)), 0)]) (Rmdir (mountpoint (snd d)))),
                   (Spawn_helper CALLBACK_PATH ''unmount'' (mountpoint (snd d)), 0)]\<rparr>)"
    by (simp add: remove_command_lookup)
qed

lemma two_devices_facts:
  "g_devices state_two_devices ! 0 = Some sdb1_first"
  "g_devices state_two_devices ! 1 = Some sdc1_record"
  "trace state_two_devices = []"
  "remove_key ''/mnt/My_Disk/'' = ''/mnt/My_Disk''"
  "remove_key ''/dev/sdc1'' = ''/dev/sdc1''"
  "remove_key ''/dev/sdb1'' = ''/dev/sdb1''"
  "remove_key ''/dev/sdz'' = ''/dev/sdz''"
  "devnode (snd sdc1_record) = ''/dev/sdc1''"
  "mountpoint (snd sdc1_record) = ''/mnt/My_Disk''"
  "devnode (snd sdb1_first) = ''/dev/sdb1''"
  "mountpoint (snd sdb1_first) = ''/mnt/DATA''"
  "udev_devnode (udev (snd sdc1_record)) = Some ''/dev/sdc1''"
  "fstab_search (g_mtab state_two_devices) (udev (snd sdc1_record)) =
     Some (Some \<lparr>fs_source = ''/dev/sdc1'', fs_target = Some ''/mnt/My_Disk'', fs_options = [''rw'']\<rparr>)"
  "fstab_search (g_mtab state_two_devices) (udev (snd sdb1_first)) = Some None"
  "device_search (Some ''/dev/sdz'') (g_devices state_two_devices) = None"
  "os_ok [] (Umount ''/dev/sdc1'') = 0"
  "os_ok [(Umount ''/dev/sdc1'', 0)] (Rmdir ''/mnt/My_Disk'') = 0"
  "os_busy [] (Umount ''/dev/sdc1'') = -1"
  "(g_devices state_two_devices)[1 := None] = registry_sdb1"
  by code_simp+

lemma two_devices_addresses: "unique_addresses (g_devices state_two_devices)"
proof -
  have slots: "(i = 0 \<and> e = sdb1_first) \<or> (i = 1 \<and> e = sdc1_record)"
    if "g_devices state_two_devices ! i = Some e" "i < MAX_DEVICES" for i e
    using that
    by (cases "i = 0"; cases "i = 1")
      (simp_all add: state_two_devices_def boot_state_def registry_sdb1_def empty_registry_def)
  have "fst sdb1_first \<noteq> fst sdc1_record" by (simp add: sdb1_first_def sdc1_record_def)
  with slots show ?thesis
    unfolding unique_addresses_def slots_distinct_iff by (metis zero_neq_one)
qed

text \<open>
  The theorem at work on a registry that holds \<^verbatim>\<open>/dev/sdb1\<close> in slot 0 and
  \<^verbatim>\<open>/dev/sdc1\<close> (mountpoint \<^verbatim>\<open>/mnt/My_Disk\<close>) in slot 1, with an mtab snapshot that
  shows \<^verbatim>\<open>/dev/sdc1\<close> only: a path that matches no record; the device path of the
  record that is not mounted; the mountpoint of the mounted record, with a trailing
  slash, and its device path; and the mountpoint again when \<^verbatim>\<open>mnt_context_umount\<close>
  fails.
\<close>

theorem handle_ipc_event_remove_witness:
  "device_search (Some ''/dev/sdz'') (g_devices state_two_devices) = None \<and>
   handle_ipc_event os_ok ''R/dev/sdz'' state_two_devices = Some state_two_devices \<and>
   g_devices state_two_devices ! 0 = Some sdb1_first \<and>
   g_devices state_two_devices ! 1 = Some sdc1_record \<and>
   fstab_search (g_mtab state_two_devices) (udev (snd sdb1_first)) = Some None \<and>
   handle_ipc_event os_ok ''R/dev/sdb1'' state_two_devices = Some state_two_devices \<and>
   fstab_search (g_mtab state_two_devices) (udev (snd sdc1_record)) =
     Some (Some \<lparr>fs_source = ''/dev/sdc1'', fs_target = Some ''/mnt/My_Disk'', fs_options = [''rw'']\<rparr>) \<and>
   unique_addresses (g_devices state_two_devices) \<and>
   handle_ipc_event os_ok ''R/mnt/My_Disk/'' state_two_devices =
     Some (state_two_devices\<lparr>g_devices := registry_sdb1,
       trace := [(Umount ''/dev/sdc1'', 0), (Rmdir ''/mnt/My_Disk'', 0),
                 (Spawn_helper None ''unmount'' ''/mnt/My_Disk'', 0)]\<rparr>) \<and>
   handle_ipc_event os_ok ''R/dev/sdc1'' state_two_devices =
     Some (state_two_devices\<lparr>g_devices := registry_sdb1,
       trace := [(Umount ''/dev/sdc1'', 0), (Rmdir ''/mnt/My_Disk'', 0),
                 (Spawn_helper None ''unmount'' ''/mnt/My_Disk'', 0)]\<rparr>) \<and>
   handle_ipc_event os_busy ''R/mnt/My_Disk/'' state_two_devices =
     Some (state_two_devices\<lparr>trace := [(Umount ''/dev/sdc1'', -1)]\<rparr>)"
proof -
  note facts = two_devices_facts two_devices_addresses
  have none: "\<forall>i<MAX_DEVICES. \<not> matches (remove_key ''/dev/sdz'') (g_devices state_two_devices ! i)"
    using search_none_D [OF two_devices_facts(15)] by (simp add: two_devices_facts(7))
  have one: "1 < MAX_DEVICES" "0 < MAX_DEVICES" by (simp_all add: MAX_DEVICES_def)
  have absent: "handle_ipc_event os_ok ''R/dev/sdz'' state_two_devices = Some state_two_devices"
    using handle_ipc_event_remove [where path = "''/dev/sdz''" and s = state_two_devices and os = os_ok]
      none by simp
  have unmounted: "handle_ipc_event os_ok ''R/dev/sdb1'' state_two_devices = Some state_two_devices"
    using handle_ipc_event_remove [where path = "''/dev/sdb1''" and s = state_two_devices
        and os = os_ok and k = 0 and d = sdb1_first and entry = None]
      facts one by (simp add: matches_def)
  have by_mountpoint: "handle_ipc_event os_ok ''R/mnt/My_Disk/'' state_two_devices =
     Some (state_two_devices\<lparr>g_devices := registry_sdb1,
       trace := [(Umount ''/dev/sdc1'', 0), (Rmdir ''/mnt/My_Disk'', 0),
                 (Spawn_helper None ''unmount'' ''/mnt/My_Disk'', 0)]\<rparr>)"
    using handle_ipc_event_remove [where path = "''/mnt/My_Disk/''" and s = state_two_devices
        and os = os_ok and k = 1 and d = sdc1_record
        and entry = "Some \<lparr>fs_source = ''/dev/sdc1'', fs_target = Some ''/mnt/My_Disk'', fs_options = [''rw'']\<rparr>"]
      facts one by (simp add: matches_def CALLBACK_PATH_def)
  have by_device_path: "handle_ipc_event os_ok ''R/dev/sdc1'' state_two_devices =
     Some (state_two_devices\<lparr>g_devices := registry_sdb1,
       trace := [(Umount ''/dev/sdc1'', 0), (Rmdir ''/mnt/My_Disk'', 0),
                 (Spawn_helper None ''unmount'' ''/mnt/My_Disk'', 0)]\<rparr>)"
    using handle_ipc_event_remove [where path = "''/dev/sdc1''" and s = state_two_devices
        and os = os_ok and k = 1 and d = sdc1_record
        and entry = "Some \<lparr>fs_source = ''/dev/sdc1'', fs_target = Some ''/mnt/My_Disk'', fs_options = [''rw'']\<rparr>"]
      facts one by (simp add: matches_def CALLBACK_PATH_def)
  have busy: "handle_ipc_event os_busy ''R/mnt/My_Disk/'' state_two_devices =
     Some (state_two_devices\<lparr>trace := [(Umount ''/dev/sdc1'', -1)]\<rparr>)"
    using handle_ipc_event_remove [where path = "''/mnt/My_Disk/''" and s = state_two_devices
        and os = os_busy and k = 1 and d = sdc1_record
        and entry = "Some \<lparr>fs_source = ''/dev/sdc1'', fs_target = Some ''/mnt/My_Disk'', fs_options = [''rw'']\<rparr>"]
      facts one by (simp add: matches_def)
  from absent unmounted by_mountpoint by_device_path busy facts show ?thesis by simp
qed

lemma sdb1_twice_facts:
  "g_devices state_sdb1_twice ! 0 = Some sdb1_first"
  "g_devices state_sdb1_twice ! 1 = Some sdb1_second"
  "device_search (Some ''/mnt/DATA_'') (g_devices state_sdb1_twice) = Some sdb1_second"
  "device_is_mounted state_sdb1_twice (udev (snd sdb1_second)) = Some True"
  "handle_ipc_event os_ok ''R/mnt/DATA_/'' state_sdb1_twice =
     Some (state_sdb1_twice\<lparr>g_devices := empty_registry[1 := Some sdb1_second],
       trace := trace state_sdb1_twice @
         [(Umount ''/dev/sdb1'', 0), (Rmdir ''/mnt/DATA'', 0),
          (Spawn_helper None ''unmount'' ''/mnt/DATA'', 0)]\<rparr>)"
  "device_search (Some ''/mnt/DATA_'') (empty_registry[1 := Some sdb1_second]) = Some sdb1_second"
  "mountpoint (snd sdb1_second) = ''/mnt/DATA_''"
  by code_simp+

text \<open>
  Claim C7 as stated fails, in two ways. First, \<^verbatim>\<open>/dev/sdc1\<close> is registered with the
  mountpoint \<^verbatim>\<open>/mnt/My_Disk\<close>, the mtab snapshot does not show it, and the message
  \<^verbatim>\<open>R/mnt/My_Disk/\<close> leaves the state as it is: the matching device stays registered
  and nothing is called. Second, after two add events for \<^verbatim>\<open>/dev/sdb1\<close> the registry
  holds a record with the mountpoint \<^verbatim>\<open>/mnt/DATA\<close> in slot 0 and one with the
  mountpoint \<^verbatim>\<open>/mnt/DATA_\<close> in slot 1, both shown mounted. The message
  \<^verbatim>\<open>R/mnt/DATA_/\<close> matches the record in slot 1, but \<^verbatim>\<open>device_unmount\<close> looks the
  registry up again by the device path and finds the record in slot 0: it is that
  record's mountpoint that \<^verbatim>\<open>rmdir\<close> and \<^verbatim>\<open>spawn_helper\<close> get and that record's
  slot that is cleared, while the record that matched stays registered.
\<close>

theorem handle_ipc_event_remove_counterexample:
  "device_search (Some ''/mnt/My_Disk'') (g_devices state_sdc1) = Some sdc1_record \<and>
   device_is_mounted state_sdc1 (udev (snd sdc1_record)) = Some False \<and>
   handle_ipc_event os_ok ''R/mnt/My_Disk/'' state_sdc1 = Some state_sdc1 \<and>
   g_devices state_sdb1_twice ! 0 = Some sdb1_first \<and>
   g_devices state_sdb1_twice ! 1 = Some sdb1_second \<and>
   device_search (Some ''/mnt/DATA_'') (g_devices state_sdb1_twice) = Some sdb1_second \<and>
   device_is_mounted state_sdb1_twice (udev (snd sdb1_second)) = Some True \<and>
   handle_ipc_event os_ok ''R/mnt/DATA_/'' state_sdb1_twice =
     Some (state_sdb1_twice\<lparr>g_devices := empty_registry[1 := Some sdb1_second],
       trace := trace state_sdb1_twice @
         [(Umount ''/dev/sdb1'', 0), (Rmdir ''/mnt/DATA'', 0),
          (Spawn_helper None ''unmount'' ''/mnt/DATA'', 0)]\<rparr>) \<and>
   device_search (Some ''/mnt/DATA_'') (empty_registry[1 := Some sdb1_second]) = Some sdb1_second"
proof -
  have "device_search (Some ''/mnt/My_Disk'') (g_devices state_sdc1) = Some sdc1_record \<and>
   device_is_mounted state_sdc1 (udev (snd sdc1_record)) = Some False \<and>
   handle_ipc_event os_ok ''R/mnt/My_Disk/'' state_sdc1 = Some state_sdc1"
    by code_simp
  with sdb1_twice_facts show ?thesis by simp
qed

end
